theory Spec2Isabelle
  imports Main "HOL-Library.AList"
begin

section \<open>The tic-tac-toe graph\<close>

text \<open>
  The referee of \<^verbatim>\<open>game.py\<close> keeps its board in a \<^verbatim>\<open>networkx.Graph\<close>. A node is
  a Python tuple: \<^verbatim>\<open>(i, j)\<close> for a space of the grid, \<^verbatim>\<open>('row', i)\<close>,
  \<^verbatim>\<open>('col', j)\<close> and \<^verbatim>\<open>('dia', k)\<close> for the lines. Each node carries the attribute
  \<^verbatim>\<open>label\<close>, a one-character string.
\<close>

datatype node = Cell int int | Row int | Col int | Dia int

type_synonym label = char

text \<open>Every failing lookup of the source is a \<^verbatim>\<open>KeyError\<close> of a dictionary.\<close>

datatype error = KeyError

text \<open>
  The graph is the pair of dictionaries that networkx keeps: the node dictionary, from a
  node to its attributes (here the label, absent for a node that was only ever mentioned by
  \<^verbatim>\<open>add_edge\<close>), and the adjacency dictionary, from a node to its neighbours. Python
  dictionaries iterate in insertion order, so both are association lists.
\<close>

record graph =
  node_attr :: "(node \<times> label option) list"
  adj :: "(node \<times> node list) list"

definition empty_graph :: graph where
  "empty_graph = \<lparr>node_attr = [], adj = []\<rparr>"

definition has_node :: "graph \<Rightarrow> node \<Rightarrow> bool" where
  "has_node g v = (map_of (node_attr g) v \<noteq> None)"

text \<open>\<^verbatim>\<open>G.add_node(v, label=l)\<close>: a new node gets an empty adjacency; an old one keeps
  its place and has the attribute overwritten.\<close>

definition add_node :: "node \<Rightarrow> label \<Rightarrow> graph \<Rightarrow> graph" where
  "add_node v l g =
     (if has_node g v then g\<lparr>node_attr := AList.update v (Some l) (node_attr g)\<rparr>
      else g\<lparr>node_attr := node_attr g @ [(v, Some l)], adj := adj g @ [(v, [])]\<rparr>)"

text \<open>The part of \<^verbatim>\<open>add_edge\<close> that creates a missing endpoint, without attributes.\<close>

definition ensure_node :: "node \<Rightarrow> graph \<Rightarrow> graph" where
  "ensure_node v g =
     (if has_node g v then g
      else g\<lparr>node_attr := node_attr g @ [(v, None)], adj := adj g @ [(v, [])]\<rparr>)"

text \<open>\<^verbatim>\<open>self._adj[u][v] = datadict\<close>: the key \<open>v\<close> enters the inner dictionary of \<open>u\<close> at the
  end, or stays where it is.\<close>

fun adj_insert :: "node \<Rightarrow> node \<Rightarrow> (node \<times> node list) list \<Rightarrow> (node \<times> node list) list" where
  "adj_insert u v [] = [(u, [v])]"
| "adj_insert u v ((k, ns) # rest) =
     (if k = u then (k, if v \<in> set ns then ns else ns @ [v]) # rest
      else (k, ns) # adj_insert u v rest)"

definition add_edge :: "node \<Rightarrow> node \<Rightarrow> graph \<Rightarrow> graph" where
  "add_edge u v g =
     (let g2 = ensure_node v (ensure_node u g)
      in g2\<lparr>adj := adj_insert v u (adj_insert u v (adj g2))\<rparr>)"

text \<open>\<^verbatim>\<open>G.nodes[v]['label']\<close>, \<^verbatim>\<open>G.nodes[v]['label'] = l\<close> and \<^verbatim>\<open>G.adj[v]\<close>.\<close>

definition label_of :: "graph \<Rightarrow> node \<Rightarrow> error + label" where
  "label_of g v =
     (case map_of (node_attr g) v of
        None \<Rightarrow> Inl KeyError
      | Some None \<Rightarrow> Inl KeyError
      | Some (Some l) \<Rightarrow> Inr l)"

definition set_label :: "node \<Rightarrow> label \<Rightarrow> graph \<Rightarrow> error + graph" where
  "set_label v l g =
     (if has_node g v then Inr (g\<lparr>node_attr := AList.update v (Some l) (node_attr g)\<rparr>)
      else Inl KeyError)"

definition adj_of :: "graph \<Rightarrow> node \<Rightarrow> error + node list" where
  "adj_of g v = (case map_of (adj g) v of None \<Rightarrow> Inl KeyError | Some ns \<Rightarrow> Inr ns)"

text \<open>\<^verbatim>\<open>range(n)\<close> of Python, for the small bounds of the source.\<close>

definition range_py :: "nat \<Rightarrow> int list" where
  "range_py n = map int [0..<n]"

abbreviation BLANK :: label where "BLANK \<equiv> CHR '' ''"
abbreviation COP :: label where "COP \<equiv> CHR ''C''"
abbreviation ROB :: label where "ROB \<equiv> CHR ''R''"

text \<open>The body of the inner loop of \<^verbatim>\<open>__init_tictactoe_graph\<close>, for one \<open>(i, j)\<close>.\<close>

definition init_space :: "int \<Rightarrow> int \<Rightarrow> graph \<Rightarrow> graph" where
  "init_space i j g =
     (let g1 = (if i = 0 then add_node (Col j) BLANK g else g);
          g2 = add_node (Cell i j) BLANK g1;
          g3 = add_edge (Cell i j) (Row i) g2;
          g4 = add_edge (Cell i j) (Col j) g3;
          g5 = (if i = j then add_edge (Cell i j) (Dia 0) g4 else g4)
      in if i = 2 - j then add_edge (Cell i j) (Dia 1) g5 else g5)"

definition init_row :: "int \<Rightarrow> graph \<Rightarrow> graph" where
  "init_row i g = fold (init_space i) (range_py 3) (add_node (Row i) BLANK g)"

definition init_tictactoe_graph :: graph where
  "init_tictactoe_graph =
     fold init_row (range_py 3)
       (fold (\<lambda>i. add_node (Dia i) BLANK) (range_py 2) empty_graph)"

section \<open>The engines\<close>

text \<open>
  The two engines are external: the referee calls the engine itself once, with no argument,
  to get an instance, and then the \<^verbatim>\<open>step\<close> method of the instance with the graph.
  A call either returns or raises an instance of \<^verbatim>\<open>Exception\<close>. A move is a pair of
  integers or \<^verbatim>\<open>None\<close>, as the annotation \<^verbatim>\<open>tuple[int, int] | None\<close> says.
  An instance is its private state together with its \<^verbatim>\<open>step\<close> method, which receives
  the graph for reading and may change the private state, also when it raises.
\<close>

datatype 'a outcome = Returns 'a | Raises

type_synonym move = "int \<times> int"

datatype 'e inst =
  Inst (istate: 'e) (istep: "'e \<Rightarrow> graph \<Rightarrow> move option outcome \<times> 'e")

text \<open>
  What the referee does to the outside world, in order: the calls of the two engines and
  of \<^verbatim>\<open>game_logger.info\<close>. This history is not an attribute of the Python object; it
  records the effects that the source has besides changing the object.
\<close>

datatype call = Construct_cops | Construct_robber | Step_cops | Step_robber | Log_info

section \<open>The referee\<close>

text \<open>
  The attributes of a \<^verbatim>\<open>Game\<close> object. \<^verbatim>\<open>self.cops\<close> and \<^verbatim>\<open>self.robber\<close> are
  \<open>None\<close> when they hold \<^verbatim>\<open>None\<close> and also when the attribute was never assigned:
  both make \<^verbatim>\<open>self.robber.step\<close> raise an \<^verbatim>\<open>AttributeError\<close>.
\<close>

record ('c, 'r) game =
  graph :: graph
  p_result :: int
  p_round :: int
  p_status :: string
  cops :: "'c inst option"
  robber :: "'r inst option"
  calls :: "call list"

definition bind_e :: "error + 'a \<Rightarrow> ('a \<Rightarrow> error + 'b) \<Rightarrow> error + 'b" where
  "bind_e x f = (case x of Inl e \<Rightarrow> Inl e | Inr a \<Rightarrow> f a)"

subsection \<open>Setting the outcome\<close>

definition robber_win :: "('c, 'r) game \<Rightarrow> ('c, 'r) game" where
  "robber_win s = (if p_result s = 0 then s\<lparr>p_result := - 1\<rparr> else s)"

definition cops_win :: "('c, 'r) game \<Rightarrow> ('c, 'r) game" where
  "cops_win s = (if p_result s = 0 then s\<lparr>p_result := 1\<rparr> else s)"

definition set_status :: "string \<Rightarrow> ('c, 'r) game \<Rightarrow> ('c, 'r) game" where
  "set_status st s = (if p_status s = ''Game continues'' then s\<lparr>p_status := st\<rparr> else s)"

definition cops_three_in_a_row :: "('c, 'r) game \<Rightarrow> ('c, 'r) game" where
  "cops_three_in_a_row s = set_status ''Robber caught'' (cops_win s)"

definition tie :: "('c, 'r) game \<Rightarrow> ('c, 'r) game" where
  "tie s = set_status ''Cops shift ends'' (robber_win s)"

definition robber_three_in_a_row :: "('c, 'r) game \<Rightarrow> ('c, 'r) game" where
  "robber_three_in_a_row s = set_status ''Robber escapes'' (robber_win s)"

definition cops_invalid_step :: "('c, 'r) game \<Rightarrow> ('c, 'r) game" where
  "cops_invalid_step s = set_status ''Cops invalid step'' (robber_win s)"

definition robber_invalid_step :: "('c, 'r) game \<Rightarrow> ('c, 'r) game" where
  "robber_invalid_step s = set_status ''Robber invalid step'' (cops_win s)"

definition cops_exception :: "('c, 'r) game \<Rightarrow> ('c, 'r) game" where
  "cops_exception s = set_status ''Exception in cops call'' (robber_win s)"

definition robber_exception :: "('c, 'r) game \<Rightarrow> ('c, 'r) game" where
  "robber_exception s = set_status ''Exception in robber call'' (cops_win s)"

definition result :: "('c, 'r) game \<Rightarrow> int" where
  "result s = p_result s"

definition status :: "('c, 'r) game \<Rightarrow> string" where
  "status s = p_status s"

definition log_info :: "('c, 'r) game \<Rightarrow> ('c, 'r) game" where
  "log_info s = s\<lparr>calls := calls s @ [Log_info]\<rparr>"

subsection \<open>Placing a label\<close>

definition set_cop_positions :: "move option \<Rightarrow> ('c, 'r) game \<Rightarrow> error + ('c, 'r) game" where
  "set_cop_positions mv s =
     (case mv of
        None \<Rightarrow> Inr (cops_invalid_step s)
      | Some (r, c) \<Rightarrow>
          if r < 0 \<or> c < 0 \<or> r > 2 \<or> c > 2 then Inr (cops_invalid_step s)
          else bind_e (label_of (graph s) (Cell r c)) (\<lambda>l.
            if l \<noteq> BLANK then Inr (cops_invalid_step s)
            else bind_e (set_label (Cell r c) COP (graph s)) (\<lambda>g. Inr (s\<lparr>graph := g\<rparr>))))"

definition set_robber_position :: "move option \<Rightarrow> ('c, 'r) game \<Rightarrow> error + ('c, 'r) game" where
  "set_robber_position mv s =
     (case mv of
        None \<Rightarrow> Inr (robber_invalid_step s)
      | Some (r, c) \<Rightarrow>
          if r < 0 \<or> c < 0 \<or> r > 2 \<or> c > 2 then Inr (robber_invalid_step s)
          else bind_e (label_of (graph s) (Cell r c)) (\<lambda>l.
            if l \<noteq> BLANK then Inr (robber_invalid_step s)
            else bind_e (set_label (Cell r c) ROB (graph s)) (\<lambda>g. Inr (s\<lparr>graph := g\<rparr>))))"

subsection \<open>The two checks\<close>

text \<open>The inner loop of \<^verbatim>\<open>__three_in_a_row\<close>: it visits every neighbour, with the flag
  \<^verbatim>\<open>win\<close> as accumulator.\<close>

fun neighbours_loop :: "graph \<Rightarrow> label \<Rightarrow> node list \<Rightarrow> bool \<Rightarrow> error + bool" where
  "neighbours_loop g l [] win = Inr win"
| "neighbours_loop g l (w # ws) win =
     bind_e (label_of g w) (\<lambda>x. neighbours_loop g l ws (if x \<noteq> l then False else win))"

text \<open>The outer loop, which returns at the first node whose flag is still set.\<close>

fun nodes_loop :: "graph \<Rightarrow> label \<Rightarrow> node list \<Rightarrow> error + int" where
  "nodes_loop g l [] = Inr 0"
| "nodes_loop g l (v # vs) =
     bind_e (adj_of g v) (\<lambda>ws.
       bind_e (neighbours_loop g l ws True) (\<lambda>win.
         if win then Inr 1 else nodes_loop g l vs))"

definition three_in_a_row :: "label \<Rightarrow> graph \<Rightarrow> error + int" where
  "three_in_a_row l g = nodes_loop g l (map fst (node_attr g))"

fun tied_loop :: "graph \<Rightarrow> node list \<Rightarrow> error + int" where
  "tied_loop g [] = Inr 1"
| "tied_loop g (v # vs) =
     bind_e (label_of g v) (\<lambda>x. if x = BLANK then Inr 0 else tied_loop g vs)"

definition spaces :: "node list" where
  "spaces = concat (map (\<lambda>i. map (\<lambda>j. Cell i j) (range_py 3)) (range_py 3))"

definition game_tied :: "graph \<Rightarrow> error + int" where
  "game_tied g = tied_loop g spaces"

subsection \<open>One ply\<close>

text \<open>The \<^verbatim>\<open>try\<close> block of \<^verbatim>\<open>__cops_step\<close>: the move that reaches the validation, and
  the game after the call. Here the step reads the graph and leaves it as it is, which is
  the contract of the specification for an engine; \<open>call_cops_live\<close> below is the same
  call for a step that also writes to the graph.\<close>

definition call_cops :: "('c, 'r) game \<Rightarrow> move option \<times> ('c, 'r) game" where
  "call_cops s =
     (case cops s of
        None \<Rightarrow> (None, cops_exception (log_info s))
      | Some i \<Rightarrow>
          (case istep i (istate i) (graph s) of
             (Raises, e) \<Rightarrow>
               (None, cops_exception (log_info
                  (s\<lparr>cops := Some (Inst e (istep i)), calls := calls s @ [Step_cops]\<rparr>)))
           | (Returns m, e) \<Rightarrow>
               (m, s\<lparr>cops := Some (Inst e (istep i)), calls := calls s @ [Step_cops]\<rparr>)))"

definition call_robber :: "('c, 'r) game \<Rightarrow> move option \<times> ('c, 'r) game" where
  "call_robber s =
     (case robber s of
        None \<Rightarrow> (None, robber_exception (log_info s))
      | Some i \<Rightarrow>
          (case istep i (istate i) (graph s) of
             (Raises, e) \<Rightarrow>
               (None, robber_exception (log_info
                  (s\<lparr>robber := Some (Inst e (istep i)), calls := calls s @ [Step_robber]\<rparr>)))
           | (Returns m, e) \<Rightarrow>
               (m, s\<lparr>robber := Some (Inst e (istep i)), calls := calls s @ [Step_robber]\<rparr>)))"

definition robber_step :: "('c, 'r) game \<Rightarrow> error + ('c, 'r) game" where
  "robber_step s =
     (case call_robber s of (robber_move, s1) \<Rightarrow>
        bind_e (set_robber_position robber_move s1) (\<lambda>s2.
          bind_e (three_in_a_row ROB (graph s2)) (\<lambda>w.
            Inr (if w \<noteq> 0 then robber_three_in_a_row s2 else s2))))"

definition cops_step :: "('c, 'r) game \<Rightarrow> error + ('c, 'r) game" where
  "cops_step s =
     (case call_cops s of (cop_move, s1) \<Rightarrow>
        bind_e (set_cop_positions cop_move s1) (\<lambda>s2.
          bind_e (three_in_a_row COP (graph s2)) (\<lambda>w.
            let s3 = (if w \<noteq> 0 then cops_three_in_a_row s2 else s2)
            in bind_e (game_tied (graph s3)) (\<lambda>t.
                 Inr (if t \<noteq> 0 then tie s3 else s3)))))"

definition next_round :: "('c, 'r) game \<Rightarrow> error + ('c, 'r) game" where
  "next_round s =
     (let s1 = s\<lparr>p_round := p_round s + 1\<rparr>
      in if p_round s1 mod 2 = 0 then cops_step s1 else robber_step s1)"

subsection \<open>Construction\<close>

text \<open>\<^verbatim>\<open>__init_cops\<close> and \<^verbatim>\<open>__init_robber\<close> return, or log, set the outcome and raise
  \<^verbatim>\<open>RuntimeError\<close>: the first component says which.\<close>

definition init_cops :: "'c inst outcome \<Rightarrow> ('c, 'r) game \<Rightarrow> unit outcome \<times> ('c, 'r) game" where
  "init_cops cops_engine s =
     (let s1 = s\<lparr>calls := calls s @ [Construct_cops]\<rparr>
      in case cops_engine of
           Returns i \<Rightarrow> (Returns (), s1\<lparr>cops := Some i\<rparr>)
         | Raises \<Rightarrow> (Raises, cops_exception (log_info s1)))"

definition init_robber :: "'r inst outcome \<Rightarrow> ('c, 'r) game \<Rightarrow> unit outcome \<times> ('c, 'r) game" where
  "init_robber robber_engine s =
     (let s1 = s\<lparr>calls := calls s @ [Construct_robber]\<rparr>
      in case robber_engine of
           Returns i \<Rightarrow> (Returns (), s1\<lparr>robber := Some i\<rparr>)
         | Raises \<Rightarrow> (Raises, robber_exception (log_info s1)))"

text \<open>\<^verbatim>\<open>Game.__init__\<close>. Both \<^verbatim>\<open>except RuntimeError: return\<close> branches and the normal
  end return the object as it then is.\<close>

definition Game :: "'c inst outcome \<Rightarrow> 'r inst outcome \<Rightarrow> ('c, 'r) game" where
  "Game cops_engine robber_engine =
     (let s0 = \<lparr>graph = init_tictactoe_graph, p_result = 0, p_round = - 1,
                p_status = ''Game continues'', cops = None, robber = None, calls = []\<rparr>
      in case init_cops cops_engine s0 of
           (Raises, s1) \<Rightarrow> s1
         | (Returns _, s1) \<Rightarrow>
             (case init_robber robber_engine (s1\<lparr>robber := None\<rparr>) of
                (Raises, s2) \<Rightarrow> s2
              | (Returns _, s2) \<Rightarrow> s2))"

section \<open>Driving the referee\<close>

text \<open>The game after \<open>n\<close> calls of \<^verbatim>\<open>next_round\<close>, or the error that the first failing
  call raises.\<close>

fun play :: "nat \<Rightarrow> ('c, 'r) game \<Rightarrow> error + ('c, 'r) game" where
  "play 0 s = Inr s"
| "play (Suc n) s = bind_e (play n s) next_round"

text \<open>An engine instance that answers from a script, one entry for each call, and returns
  \<^verbatim>\<open>None\<close> when the script is used up.\<close>

definition scripted :: "move option outcome list \<Rightarrow> (move option outcome list) inst" where
  "scripted ms =
     Inst ms (\<lambda>e g. case e of [] \<Rightarrow> (Returns None, []) | m # rest \<Rightarrow> (m, rest))"

definition plays :: "move list \<Rightarrow> (move option outcome list) inst outcome" where
  "plays ms = Returns (scripted (map (\<lambda>m. Returns (Some m)) ms))"

text \<open>What a client reads after \<open>n\<close> calls of \<^verbatim>\<open>next_round\<close>: \<open>observe result n s\<close> is
  the value of \<^verbatim>\<open>result()\<close> then.\<close>

definition observe :: "(('c, 'r) game \<Rightarrow> 'a) \<Rightarrow> nat \<Rightarrow> ('c, 'r) game \<Rightarrow> error + 'a" where
  "observe f n s = bind_e (play n s) (\<lambda>s'. Inr (f s'))"

text \<open>What the call \<^verbatim>\<open>self.cops.step(self.graph)\<close> does, as the \<^verbatim>\<open>try\<close> block of
  \<^verbatim>\<open>__cops_step\<close> sees it, and the same for the Robber. Without an instance the
  attribute lookup raises an \<^verbatim>\<open>AttributeError\<close> and no engine is called.\<close>

definition cops_answer :: "('c, 'r) game \<Rightarrow> move option outcome" where
  "cops_answer s =
     (case cops s of None \<Rightarrow> Raises | Some i \<Rightarrow> fst (istep i (istate i) (graph s)))"

definition robber_answer :: "('c, 'r) game \<Rightarrow> move option outcome" where
  "robber_answer s =
     (case robber s of None \<Rightarrow> Raises | Some i \<Rightarrow> fst (istep i (istate i) (graph s)))"

text \<open>Whose ply the next call of \<^verbatim>\<open>next_round\<close> is: the Cops act when the
  incremented round is even.\<close>

definition cops_to_move :: "('c, 'r) game \<Rightarrow> bool" where
  "cops_to_move s \<longleftrightarrow> (p_round s + 1) mod 2 = 0"

definition acting_step :: "('c, 'r) game \<Rightarrow> move option outcome" where
  "acting_step s = (if cops_to_move s then cops_answer s else robber_answer s)"

definition acting_label :: "('c, 'r) game \<Rightarrow> label" where
  "acting_label s = (if cops_to_move s then COP else ROB)"

text \<open>The calls that the referee made between two states of the same game.\<close>

definition new_calls :: "('c, 'r) game \<Rightarrow> ('c, 'r) game \<Rightarrow> call list" where
  "new_calls s s' = drop (length (calls s)) (calls s')"

text \<open>The moves that pass the test of \<^verbatim>\<open>__set_cop_positions\<close> and
  \<^verbatim>\<open>__set_robber_position\<close>: present, both coordinates in \<open>[0, 2]\<close>, target blank.\<close>

definition valid_move :: "graph \<Rightarrow> move option \<Rightarrow> bool" where
  "valid_move g mv =
     (case mv of
        None \<Rightarrow> False
      | Some (r, c) \<Rightarrow> 0 \<le> r \<and> 0 \<le> c \<and> r \<le> 2 \<and> c \<le> 2 \<and> label_of g (Cell r c) = Inr BLANK)"

text \<open>The next ply is a valid move: the step of the acting engine returns, and what it
  returns passes the test.\<close>

definition plays_valid :: "('c, 'r) game \<Rightarrow> bool" where
  "plays_valid s =
     (case acting_step s of Returns mv \<Rightarrow> valid_move (graph s) mv | Raises \<Rightarrow> False)"

text \<open>Neither call of \<^verbatim>\<open>__three_in_a_row\<close> that the referee makes, for \<open>C\<close> and for
  \<open>R\<close>, finds a node whose neighbours all carry the label.\<close>

definition no_line :: "('c, 'r) game \<Rightarrow> bool" where
  "no_line s \<longleftrightarrow>
     three_in_a_row COP (graph s) = Inr 0 \<and> three_in_a_row ROB (graph s) = Inr 0"

text \<open>\<open>all_plies n P s\<close>: the first \<open>n\<close> states of the game that starts in \<open>s\<close>, the one
  before the first call of \<^verbatim>\<open>next_round\<close> and those after each of the first \<open>n - 1\<close>
  calls, all satisfy \<open>P\<close>.\<close>

definition all_plies :: "nat \<Rightarrow> (('c, 'r) game \<Rightarrow> bool) \<Rightarrow> ('c, 'r) game \<Rightarrow> bool" where
  "all_plies n P s \<longleftrightarrow>
     list_all (\<lambda>k. case play k s of Inr s' \<Rightarrow> P s' | Inl e \<Rightarrow> False) [0..<n]"

section \<open>Engines that write to the graph\<close>











section \<open>The board of a game\<close>

text \<open>A graph with the nodes and edges that \<^verbatim>\<open>__init_tictactoe_graph\<close> builds, every
  node carrying some label.\<close>

definition tictactoe_board :: "graph \<Rightarrow> bool" where
  "tictactoe_board g \<longleftrightarrow>
     adj g = adj init_tictactoe_graph \<and>
     map fst (node_attr g) = map fst (node_attr init_tictactoe_graph) \<and>
     list_all (\<lambda>p. snd p \<noteq> None) (node_attr g)"

definition line_nodes :: "node list" where
  "line_nodes = map Row (range_py 3) @ map Col (range_py 3) @ map Dia (range_py 2)"

text \<open>The classic check of the eight lines of the grid, as the specification words it:
  some row, column or diagonal has all three of its cells labelled \<open>l\<close>.\<close>

definition eight_lines :: "move list list" where
  "eight_lines =
     map (\<lambda>i. map (\<lambda>j. (i, j)) (range_py 3)) (range_py 3) @
     map (\<lambda>j. map (\<lambda>i. (i, j)) (range_py 3)) (range_py 3) @
     [map (\<lambda>i. (i, i)) (range_py 3), map (\<lambda>i. (i, 2 - i)) (range_py 3)]"

definition classic_win :: "graph \<Rightarrow> label \<Rightarrow> bool" where
  "classic_win g l \<longleftrightarrow>
     list_ex (list_all (\<lambda>m. label_of g (Cell (fst m) (snd m)) = Inr l)) eight_lines"

text \<open>The number of spaces that carry a mark.\<close>

definition filled :: "graph \<Rightarrow> nat" where
  "filled g = length (filter (\<lambda>v. label_of g v \<noteq> Inr BLANK) spaces)"

text \<open>What holds of every game that construction and calls of \<^verbatim>\<open>next_round\<close> produce.\<close>

definition reached :: "nat \<Rightarrow> ('c, 'r) game \<Rightarrow> bool" where
  "reached n s \<longleftrightarrow>
     tictactoe_board (graph s) \<and> p_round s = int n - 1 \<and>
     (p_result s = 0 \<longleftrightarrow> p_status s = ''Game continues'') \<and>
     (p_result s = 0 \<longrightarrow> cops s \<noteq> None \<and> robber s \<noteq> None)"

section \<open>The ply without its error branches\<close>

text \<open>
  On a board of the game no lookup of a ply fails. The following functions say what a ply
  then computes; \<open>next_round_ply\<close> below proves that \<^verbatim>\<open>next_round\<close> returns exactly
  this, so they are a description of the referee and no second model of it.
\<close>

definition place :: "label \<Rightarrow> move option \<Rightarrow> graph \<Rightarrow> graph" where
  "place l mv g =
     (case mv of
        None \<Rightarrow> g
      | Some (r, c) \<Rightarrow>
          if valid_move g mv
          then g\<lparr>node_attr := AList.update (Cell r c) (Some l) (node_attr g)\<rparr>
          else g)"

definition won :: "label \<Rightarrow> graph \<Rightarrow> bool" where
  "won l g \<longleftrightarrow> three_in_a_row l g = Inr 1"

definition full :: "graph \<Rightarrow> bool" where
  "full g \<longleftrightarrow> game_tied g = Inr 1"

definition cops_ply :: "('c, 'r) game \<Rightarrow> ('c, 'r) game" where
  "cops_ply s =
     (case call_cops s of (mv, s1) \<Rightarrow>
        let s2 = (if valid_move (graph s1) mv
                  then s1\<lparr>graph := place COP mv (graph s1)\<rparr>
                  else cops_invalid_step s1);
            s3 = (if won COP (graph s2) then cops_three_in_a_row s2 else s2)
        in if full (graph s3) then tie s3 else s3)"

definition robber_ply :: "('c, 'r) game \<Rightarrow> ('c, 'r) game" where
  "robber_ply s =
     (case call_robber s of (mv, s1) \<Rightarrow>
        let s2 = (if valid_move (graph s1) mv
                  then s1\<lparr>graph := place ROB mv (graph s1)\<rparr>
                  else robber_invalid_step s1)
        in if won ROB (graph s2) then robber_three_in_a_row s2 else s2)"

definition ply :: "('c, 'r) game \<Rightarrow> ('c, 'r) game" where
  "ply s =
     (let s1 = s\<lparr>p_round := p_round s + 1\<rparr>
      in if p_round s1 mod 2 = 0 then cops_ply s1 else robber_ply s1)"

section \<open>Games for the examples\<close>

text \<open>A board with the Cops on the main diagonal and nothing else.\<close>

definition diagonal_board :: graph where
  "diagonal_board =
     init_tictactoe_graph
       \<lparr>node_attr :=
          map (\<lambda>p. (fst p, if fst p \<in> set [Cell 0 0, Cell 1 1, Cell 2 2] then Some COP else snd p))
            (node_attr init_tictactoe_graph)\<rparr>"

text \<open>The engines of the example games answer from scripts.\<close>

type_synonym script = "move option outcome list"

text \<open>The Cops answer \<open>(5, 5)\<close> on their first ply; the Robber's script is empty, so the
  Robber answers \<^verbatim>\<open>None\<close>.\<close>

definition forfeit_game :: "(script, script) game" where
  "forfeit_game = Game (plays [(5, 5)]) (plays [])"

text \<open>Nine valid moves that fill the grid and give no side a line:
  \<^verbatim>\<open>C R C / C R R / R C C\<close>.\<close>

definition draw_game :: "(script, script) game" where
  "draw_game =
     Game (plays [(0, 0), (0, 2), (1, 0), (2, 1), (2, 2)])
          (plays [(0, 1), (1, 1), (1, 2), (2, 0)])"

text \<open>Nine valid moves; the ninth completes the Cops' main diagonal and fills the grid,
  and no side has a line before: \<^verbatim>\<open>C R C / R C R / R C C\<close>.\<close>

definition last_cell_line_game :: "(script, script) game" where
  "last_cell_line_game =
     Game (plays [(0, 0), (0, 2), (2, 1), (2, 2), (1, 1)])
          (plays [(0, 1), (1, 0), (1, 2), (2, 0)])"

text \<open>Nine valid moves; the Robber completes the middle row on the sixth, and the ninth
  completes the Cops' top row and fills the grid: \<^verbatim>\<open>C C C / R R R / C C R\<close>.\<close>

definition played_on_game :: "(script, script) game" where
  "played_on_game =
     Game (plays [(0, 0), (0, 1), (2, 0), (2, 1), (0, 2)])
          (plays [(1, 0), (1, 1), (1, 2), (2, 2)])"

text \<open>The Cops' engine raises when it is called for an instance.\<close>

definition no_cops_game :: "(script, script) game" where
  "no_cops_game = Game Raises (plays [])"

text \<open>The step of the Cops raises on their first ply; the step of the Robber raises on
  the Robber's first ply.\<close>

definition cops_raise_game :: "(script, script) game" where
  "cops_raise_game = Game (Returns (scripted [Raises])) (plays [])"

definition robber_raises_game :: "(script, script) game" where
  "robber_raises_game = Game (plays [(1, 1)]) (Returns (scripted [Raises]))"



lemma init_graph_eq:
  "init_tictactoe_graph =
     \<lparr>node_attr =
        [(Dia 0, Some BLANK), (Dia 1, Some BLANK), (Row 0, Some BLANK), (Col 0, Some BLANK),
         (Cell 0 0, Some BLANK), (Col 1, Some BLANK), (Cell 0 1, Some BLANK),
         (Col 2, Some BLANK), (Cell 0 2, Some BLANK), (Row 1, Some BLANK),
         (Cell 1 0, Some BLANK), (Cell 1 1, Some BLANK), (Cell 1 2, Some BLANK),
         (Row 2, Some BLANK), (Cell 2 0, Some BLANK), (Cell 2 1, Some BLANK),
         (Cell 2 2, Some BLANK)],
      adj =
        [(Dia 0, [Cell 0 0, Cell 1 1, Cell 2 2]),
         (Dia 1, [Cell 0 2, Cell 1 1, Cell 2 0]),
         (Row 0, [Cell 0 0, Cell 0 1, Cell 0 2]),
         (Col 0, [Cell 0 0, Cell 1 0, Cell 2 0]),
         (Cell 0 0, [Row 0, Col 0, Dia 0]),
         (Col 1, [Cell 0 1, Cell 1 1, Cell 2 1]),
         (Cell 0 1, [Row 0, Col 1]),
         (Col 2, [Cell 0 2, Cell 1 2, Cell 2 2]),
         (Cell 0 2, [Row 0, Col 2, Dia 1]),
         (Row 1, [Cell 1 0, Cell 1 1, Cell 1 2]),
         (Cell 1 0, [Row 1, Col 0]),
         (Cell 1 1, [Row 1, Col 1, Dia 0, Dia 1]),
         (Cell 1 2, [Row 1, Col 2]),
         (Row 2, [Cell 2 0, Cell 2 1, Cell 2 2]),
         (Cell 2 0, [Row 2, Col 0, Dia 1]),
         (Cell 2 1, [Row 2, Col 1]),
         (Cell 2 2, [Row 2, Col 2, Dia 0])]\<rparr>"
  by code_simp

lemma init_keys:
  "map fst (node_attr init_tictactoe_graph) =
     [Dia 0, Dia 1, Row 0, Col 0, Cell 0 0, Col 1, Cell 0 1, Col 2, Cell 0 2,
      Row 1, Cell 1 0, Cell 1 1, Cell 1 2, Row 2, Cell 2 0, Cell 2 1, Cell 2 2]"
  by (simp add: init_graph_eq)

lemma range_py_simps: "range_py 3 = [0, 1, 2]" "range_py 2 = [0, 1]"
  by (simp_all add: range_py_def upt_rec)

lemma spaces_eq:
  "spaces = [Cell 0 0, Cell 0 1, Cell 0 2, Cell 1 0, Cell 1 1, Cell 1 2, Cell 2 0, Cell 2 1, Cell 2 2]"
  by (simp add: spaces_def range_py_simps)

lemma line_nodes_eq: "line_nodes = [Row 0, Row 1, Row 2, Col 0, Col 1, Col 2, Dia 0, Dia 1]"
  by (simp add: line_nodes_def range_py_simps)

lemma eight_lines_eq: "eight_lines = [[(0,0),(0,1),(0,2)],[(1,0),(1,1),(1,2)],[(2,0),(2,1),(2,2)],
  [(0,0),(1,0),(2,0)],[(0,1),(1,1),(2,1)],[(0,2),(1,2),(2,2)],[(0,0),(1,1),(2,2)],[(0,2),(1,1),(2,0)]]"
  by (simp add: eight_lines_def range_py_simps)

lemma board_init: "tictactoe_board init_tictactoe_graph"
  by (simp add: tictactoe_board_def) (simp add: init_graph_eq)

lemma adj_of_init:
  "adj_of init_tictactoe_graph (Dia 0) = Inr [Cell 0 0, Cell 1 1, Cell 2 2]"
  "adj_of init_tictactoe_graph (Dia 1) = Inr [Cell 0 2, Cell 1 1, Cell 2 0]"
  "adj_of init_tictactoe_graph (Row 0) = Inr [Cell 0 0, Cell 0 1, Cell 0 2]"
  "adj_of init_tictactoe_graph (Row 1) = Inr [Cell 1 0, Cell 1 1, Cell 1 2]"
  "adj_of init_tictactoe_graph (Row 2) = Inr [Cell 2 0, Cell 2 1, Cell 2 2]"
  "adj_of init_tictactoe_graph (Col 0) = Inr [Cell 0 0, Cell 1 0, Cell 2 0]"
  "adj_of init_tictactoe_graph (Col 1) = Inr [Cell 0 1, Cell 1 1, Cell 2 1]"
  "adj_of init_tictactoe_graph (Col 2) = Inr [Cell 0 2, Cell 1 2, Cell 2 2]"
  "adj_of init_tictactoe_graph (Cell 0 0) = Inr [Row 0, Col 0, Dia 0]"
  "adj_of init_tictactoe_graph (Cell 0 1) = Inr [Row 0, Col 1]"
  "adj_of init_tictactoe_graph (Cell 0 2) = Inr [Row 0, Col 2, Dia 1]"
  "adj_of init_tictactoe_graph (Cell 1 0) = Inr [Row 1, Col 0]"
  "adj_of init_tictactoe_graph (Cell 1 1) = Inr [Row 1, Col 1, Dia 0, Dia 1]"
  "adj_of init_tictactoe_graph (Cell 1 2) = Inr [Row 1, Col 2]"
  "adj_of init_tictactoe_graph (Cell 2 0) = Inr [Row 2, Col 0, Dia 1]"
  "adj_of init_tictactoe_graph (Cell 2 1) = Inr [Row 2, Col 1]"
  "adj_of init_tictactoe_graph (Cell 2 2) = Inr [Row 2, Col 2, Dia 0]"
  by (simp_all add: adj_of_def init_graph_eq)

lemma uniform_is_classic:
  assumes lines: "\<forall>v\<in>set line_nodes. label_of g v = Inr BLANK" and l: "l \<noteq> BLANK"
  shows "(\<exists>v\<in>set (map fst (node_attr init_tictactoe_graph)).
            \<exists>ws. adj_of init_tictactoe_graph v = Inr ws \<and> (\<forall>w\<in>set ws. label_of g w = Inr l))
         \<longleftrightarrow> classic_win g l"
proof -
  from lines l have b: "label_of g (Row 0) \<noteq> Inr l" "label_of g (Row 1) \<noteq> Inr l"
    "label_of g (Row 2) \<noteq> Inr l" "label_of g (Col 0) \<noteq> Inr l" "label_of g (Col 1) \<noteq> Inr l"
    "label_of g (Col 2) \<noteq> Inr l" "label_of g (Dia 0) \<noteq> Inr l" "label_of g (Dia 1) \<noteq> Inr l"
    by (simp_all add: line_nodes_eq)
  have lhs: "(\<exists>v\<in>set (map fst (node_attr init_tictactoe_graph)).
            \<exists>ws. adj_of init_tictactoe_graph v = Inr ws \<and> (\<forall>w\<in>set ws. label_of g w = Inr l))
     \<longleftrightarrow> (label_of g (Cell 0 0) = Inr l \<and> label_of g (Cell 1 1) = Inr l \<and> label_of g (Cell 2 2) = Inr l)
       \<or> (label_of g (Cell 0 2) = Inr l \<and> label_of g (Cell 1 1) = Inr l \<and> label_of g (Cell 2 0) = Inr l)
       \<or> (label_of g (Cell 0 0) = Inr l \<and> label_of g (Cell 0 1) = Inr l \<and> label_of g (Cell 0 2) = Inr l)
       \<or> (label_of g (Cell 0 0) = Inr l \<and> label_of g (Cell 1 0) = Inr l \<and> label_of g (Cell 2 0) = Inr l)
       \<or> (label_of g (Cell 0 1) = Inr l \<and> label_of g (Cell 1 1) = Inr l \<and> label_of g (Cell 2 1) = Inr l)
       \<or> (label_of g (Cell 0 2) = Inr l \<and> label_of g (Cell 1 2) = Inr l \<and> label_of g (Cell 2 2) = Inr l)
       \<or> (label_of g (Cell 1 0) = Inr l \<and> label_of g (Cell 1 1) = Inr l \<and> label_of g (Cell 1 2) = Inr l)
       \<or> (label_of g (Cell 2 0) = Inr l \<and> label_of g (Cell 2 1) = Inr l \<and> label_of g (Cell 2 2) = Inr l)"
    unfolding init_keys by (simp add: adj_of_init b)
  have rhs: "classic_win g l
     \<longleftrightarrow> (label_of g (Cell 0 0) = Inr l \<and> label_of g (Cell 0 1) = Inr l \<and> label_of g (Cell 0 2) = Inr l)
       \<or> (label_of g (Cell 1 0) = Inr l \<and> label_of g (Cell 1 1) = Inr l \<and> label_of g (Cell 1 2) = Inr l)
       \<or> (label_of g (Cell 2 0) = Inr l \<and> label_of g (Cell 2 1) = Inr l \<and> label_of g (Cell 2 2) = Inr l)
       \<or> (label_of g (Cell 0 0) = Inr l \<and> label_of g (Cell 1 0) = Inr l \<and> label_of g (Cell 2 0) = Inr l)
       \<or> (label_of g (Cell 0 1) = Inr l \<and> label_of g (Cell 1 1) = Inr l \<and> label_of g (Cell 2 1) = Inr l)
       \<or> (label_of g (Cell 0 2) = Inr l \<and> label_of g (Cell 1 2) = Inr l \<and> label_of g (Cell 2 2) = Inr l)
       \<or> (label_of g (Cell 0 0) = Inr l \<and> label_of g (Cell 1 1) = Inr l \<and> label_of g (Cell 2 2) = Inr l)
       \<or> (label_of g (Cell 0 2) = Inr l \<and> label_of g (Cell 1 1) = Inr l \<and> label_of g (Cell 2 0) = Inr l)"
    unfolding classic_win_def eight_lines_eq by simp
  show ?thesis unfolding lhs rhs by (simp only: disj_ac)
qed

subsection \<open>Lookups\<close>

lemma bind_e_simps [simp]:
  "bind_e (Inl e) f = Inl e" "bind_e (Inr a) f = f a"
  by (simp_all add: bind_e_def)

lemma bind_e_Inr_iff: "bind_e x f = Inr b \<longleftrightarrow> (\<exists>a. x = Inr a \<and> f a = Inr b)"
  by (cases x) simp_all

lemma board_has_label:
  assumes "tictactoe_board g" and "v \<in> set (map fst (node_attr init_tictactoe_graph))"
  shows "\<exists>l. label_of g v = Inr l"
proof -
  from assms have "v \<in> fst ` set (node_attr g)"
    by (simp add: tictactoe_board_def) (metis list.set_map)
  then obtain x where x: "map_of (node_attr g) v = Some x"
    by (metis map_of_eq_None_iff not_Some_eq)
  then have "(v, x) \<in> set (node_attr g)" by (rule map_of_SomeD)
  with assms(1) have "x \<noteq> None"
    by (auto simp: tictactoe_board_def list_all_iff)
  with x show ?thesis by (auto simp: label_of_def)
qed

lemma update_keeps_keys:
  "k \<in> fst ` set al \<Longrightarrow> map fst (AList.update k v al) = map fst al"
  by (induction al) auto

lemma update_keeps_all:
  "list_all P al \<Longrightarrow> P (k, v) \<Longrightarrow> list_all P (AList.update k v al)"
  by (induction al) auto

lemma board_set_label:
  assumes "tictactoe_board g" and "v \<in> set (map fst (node_attr init_tictactoe_graph))"
  shows "set_label v l g = Inr (g\<lparr>node_attr := AList.update v (Some l) (node_attr g)\<rparr>)"
    and "tictactoe_board (g\<lparr>node_attr := AList.update v (Some l) (node_attr g)\<rparr>)"
proof -
  from assms have k: "v \<in> fst ` set (node_attr g)"
    by (simp add: tictactoe_board_def) (metis list.set_map)
  then have "has_node g v"
    by (simp add: has_node_def map_of_eq_None_iff)
  then show "set_label v l g = Inr (g\<lparr>node_attr := AList.update v (Some l) (node_attr g)\<rparr>)"
    by (simp add: set_label_def)
  from assms(1) k show "tictactoe_board (g\<lparr>node_attr := AList.update v (Some l) (node_attr g)\<rparr>)"
    by (simp add: tictactoe_board_def update_keeps_keys update_keeps_all)
qed

lemma label_of_update:
  "label_of (g\<lparr>node_attr := AList.update v (Some l) (node_attr g)\<rparr>) w =
     (if w = v then Inr l else label_of g w)"
  by (simp add: label_of_def update_conv')

subsection \<open>The loops\<close>

lemma neighbours_loop_eq:
  "(\<forall>w\<in>set ws. \<exists>x. label_of g w = Inr x) \<Longrightarrow>
     neighbours_loop g l ws win = Inr (win \<and> (\<forall>w\<in>set ws. label_of g w = Inr l))"
  by (induction ws arbitrary: win) auto

lemma nodes_loop_eq:
  "(\<forall>v\<in>set vs. \<exists>ws. adj_of g v = Inr ws \<and> (\<forall>w\<in>set ws. \<exists>x. label_of g w = Inr x)) \<Longrightarrow>
     nodes_loop g l vs =
       Inr (if \<exists>v\<in>set vs. \<exists>ws. adj_of g v = Inr ws \<and> (\<forall>w\<in>set ws. label_of g w = Inr l)
            then 1 else 0)"
proof (induction vs)
  case Nil
  then show ?case by simp
next
  case (Cons v vs)
  then obtain ws where ws: "adj_of g v = Inr ws" "\<forall>w\<in>set ws. \<exists>x. label_of g w = Inr x"
    by auto
  from Cons have ih: "nodes_loop g l vs =
       Inr (if \<exists>v\<in>set vs. \<exists>ws. adj_of g v = Inr ws \<and> (\<forall>w\<in>set ws. label_of g w = Inr l)
            then 1 else 0)" by simp
  show ?case
    by (simp add: ws neighbours_loop_eq [OF ws(2)] ih)
qed

lemma tied_loop_eq:
  "(\<forall>v\<in>set vs. \<exists>x. label_of g v = Inr x) \<Longrightarrow>
     tied_loop g vs = Inr (if \<forall>v\<in>set vs. label_of g v \<noteq> Inr BLANK then 1 else 0)"
  by (induction vs) auto

lemma init_adj_closed:
  assumes "v \<in> set (map fst (node_attr init_tictactoe_graph))"
  shows "\<exists>ws. adj_of init_tictactoe_graph v = Inr ws \<and>
           set ws \<subseteq> set (map fst (node_attr init_tictactoe_graph))"
  using assms unfolding init_keys by (auto simp: adj_of_init)

lemma board_adj_of:
  assumes "tictactoe_board g" and "v \<in> set (map fst (node_attr init_tictactoe_graph))"
  shows "\<exists>ws. adj_of g v = Inr ws \<and> (\<forall>w\<in>set ws. \<exists>x. label_of g w = Inr x)"
proof -
  from assms(1) have a: "adj_of g v = adj_of init_tictactoe_graph v"
    by (simp add: tictactoe_board_def adj_of_def)
  from init_adj_closed [OF assms(2)] obtain ws where
    ws: "adj_of init_tictactoe_graph v = Inr ws"
        "set ws \<subseteq> set (map fst (node_attr init_tictactoe_graph))"
    by blast
  with assms(1) a show ?thesis
    by (metis board_has_label subsetD)
qed

lemma three_in_a_row_board:
  assumes "tictactoe_board g"
  shows "three_in_a_row l g =
     Inr (if \<exists>v\<in>set (map fst (node_attr init_tictactoe_graph)).
               \<exists>ws. adj_of init_tictactoe_graph v = Inr ws \<and> (\<forall>w\<in>set ws. label_of g w = Inr l)
          then 1 else 0)"
proof -
  from assms have k: "map fst (node_attr g) = map fst (node_attr init_tictactoe_graph)"
    and a: "\<And>v. adj_of g v = adj_of init_tictactoe_graph v"
    by (simp_all add: tictactoe_board_def adj_of_def)
  have "\<forall>v\<in>set (map fst (node_attr init_tictactoe_graph)).
          \<exists>ws. adj_of g v = Inr ws \<and> (\<forall>w\<in>set ws. \<exists>x. label_of g w = Inr x)"
    using board_adj_of [OF assms] by blast
  from nodes_loop_eq [OF this] show ?thesis
    by (simp only: three_in_a_row_def k a)
qed

lemma spaces_are_nodes: "set spaces \<subseteq> set (map fst (node_attr init_tictactoe_graph))"
  unfolding init_keys spaces_eq by simp

lemma game_tied_board:
  assumes "tictactoe_board g"
  shows "game_tied g = Inr (if \<forall>v\<in>set spaces. label_of g v \<noteq> Inr BLANK then 1 else 0)"
  unfolding game_tied_def
  by (rule tied_loop_eq) (use assms spaces_are_nodes board_has_label in blast)

section \<open>The three-in-a-row check and the eight lines\<close>

text \<open>
  Claim C2. On a board of the game whose seven line nodes are blank, the uniform check of
  \<^verbatim>\<open>__three_in_a_row\<close> for the label of a player, over all the nodes of the graph,
  returns 1 exactly when some row, column or diagonal of the grid has its three cells
  labelled so, and 0 otherwise: it is the classic check of the eight lines.
\<close>

theorem three_in_a_row_is_classic_check:
  assumes "tictactoe_board g"
    and "\<forall>v\<in>set line_nodes. label_of g v = Inr BLANK"
    and "l = COP \<or> l = ROB"
  shows "three_in_a_row l g = Inr (if classic_win g l then 1 else 0)"
proof -
  from assms(3) have "l \<noteq> BLANK" by auto
  from uniform_is_classic [OF assms(2) this] three_in_a_row_board [OF assms(1)]
  show ?thesis by simp
qed

lemma diagonal_board_eq:
  "diagonal_board =
     \<lparr>node_attr =
        [(Dia 0, Some BLANK), (Dia 1, Some BLANK), (Row 0, Some BLANK), (Col 0, Some BLANK),
         (Cell 0 0, Some COP), (Col 1, Some BLANK), (Cell 0 1, Some BLANK),
         (Col 2, Some BLANK), (Cell 0 2, Some BLANK), (Row 1, Some BLANK),
         (Cell 1 0, Some BLANK), (Cell 1 1, Some COP), (Cell 1 2, Some BLANK),
         (Row 2, Some BLANK), (Cell 2 0, Some BLANK), (Cell 2 1, Some BLANK),
         (Cell 2 2, Some COP)],
      adj = adj init_tictactoe_graph\<rparr>"
  unfolding diagonal_board_def by (simp add: init_graph_eq)

theorem three_in_a_row_is_classic_check_witness:
  "tictactoe_board diagonal_board \<and>
   list_all (\<lambda>v. label_of diagonal_board v = Inr BLANK) line_nodes \<and>
   classic_win diagonal_board COP \<and>
   three_in_a_row COP diagonal_board = Inr 1"
proof -
  have b: "tictactoe_board diagonal_board"
    unfolding tictactoe_board_def diagonal_board_eq by (simp add: init_graph_eq)
  have l: "\<forall>v\<in>set line_nodes. label_of diagonal_board v = Inr BLANK"
    unfolding line_nodes_eq diagonal_board_eq by (simp add: label_of_def)
  have c: "classic_win diagonal_board COP"
    unfolding classic_win_def eight_lines_eq diagonal_board_eq by (simp add: label_of_def)
  from three_in_a_row_is_classic_check [OF b l, of COP] c b l show ?thesis
    by (simp add: list_all_iff)
qed

section \<open>The outcome latch\<close>

lemma robber_win_simps [simp]:
  "p_result (robber_win s) = (if p_result s = 0 then - 1 else p_result s)"
  "p_status (robber_win s) = p_status s" "graph (robber_win s) = graph s"
  "p_round (robber_win s) = p_round s" "cops (robber_win s) = cops s"
  "robber (robber_win s) = robber s" "calls (robber_win s) = calls s"
  by (simp_all add: robber_win_def)

lemma cops_win_simps [simp]:
  "p_result (cops_win s) = (if p_result s = 0 then 1 else p_result s)"
  "p_status (cops_win s) = p_status s" "graph (cops_win s) = graph s"
  "p_round (cops_win s) = p_round s" "cops (cops_win s) = cops s"
  "robber (cops_win s) = robber s" "calls (cops_win s) = calls s"
  by (simp_all add: cops_win_def)

lemma set_status_simps [simp]:
  "p_status (set_status st s) = (if p_status s = ''Game continues'' then st else p_status s)"
  "p_result (set_status st s) = p_result s" "graph (set_status st s) = graph s"
  "p_round (set_status st s) = p_round s" "cops (set_status st s) = cops s"
  "robber (set_status st s) = robber s" "calls (set_status st s) = calls s"
  by (simp_all add: set_status_def)

lemma log_info_simps [simp]:
  "p_status (log_info s) = p_status s"
  "p_result (log_info s) = p_result s" "graph (log_info s) = graph s"
  "p_round (log_info s) = p_round s" "cops (log_info s) = cops s"
  "robber (log_info s) = robber s" "calls (log_info s) = calls s @ [Log_info]"
  by (simp_all add: log_info_def)

lemmas outcome_defs =
  cops_three_in_a_row_def tie_def robber_three_in_a_row_def cops_invalid_step_def
  robber_invalid_step_def cops_exception_def robber_exception_def

section \<open>A ply on a board of the game\<close>

lemma valid_move_node:
  "valid_move g (Some (r, c)) \<Longrightarrow> Cell r c \<in> set (map fst (node_attr init_tictactoe_graph))"
proof -
  assume "valid_move g (Some (r, c))"
  then have "r \<in> {0, 1, 2}" "c \<in> {0, 1, 2}"
    by (auto simp: valid_move_def)
  then show ?thesis unfolding init_keys by auto
qed

lemma board_place:
  assumes "tictactoe_board g"
  shows "tictactoe_board (place l mv g)"
proof (cases "valid_move g mv")
  case True
  then obtain r c where m: "mv = Some (r, c)"
    by (cases mv) (auto simp: valid_move_def)
  with True have "valid_move g (Some (r, c))" by simp
  then have "Cell r c \<in> set (map fst (node_attr init_tictactoe_graph))"
    by (rule valid_move_node)
  from board_set_label(2) [OF assms this] True m show ?thesis
    by (simp add: place_def)
next
  case False
  with assms show ?thesis by (auto simp: place_def split: option.splits)
qed

lemma set_cop_positions_board:
  assumes "tictactoe_board (graph s)"
  shows "set_cop_positions mv s =
     Inr (if valid_move (graph s) mv then s\<lparr>graph := place COP mv (graph s)\<rparr>
          else cops_invalid_step s)"
proof (cases mv)
  case None
  then show ?thesis by (simp add: set_cop_positions_def valid_move_def)
next
  case (Some m)
  obtain r c where m: "m = (r, c)" by (cases m)
  show ?thesis
  proof (cases "valid_move (graph s) mv")
    case True
    with Some m have v: "valid_move (graph s) (Some (r, c))" by simp
    then have rng: "\<not> (r < 0 \<or> c < 0 \<or> r > 2 \<or> c > 2)"
      and bl: "label_of (graph s) (Cell r c) = Inr BLANK"
      by (auto simp: valid_move_def)
    from board_set_label(1) [OF assms valid_move_node [OF v]] v rng bl show ?thesis
      by (simp add: set_cop_positions_def Some m place_def)
  next
    case False
    show ?thesis
    proof (cases "r < 0 \<or> c < 0 \<or> r > 2 \<or> c > 2")
      case True
      with False show ?thesis by (simp add: set_cop_positions_def Some m)
    next
      case out: False
      then have "r \<in> {0, 1, 2}" "c \<in> {0, 1, 2}" by auto
      then have "Cell r c \<in> set (map fst (node_attr init_tictactoe_graph))"
        unfolding init_keys by auto
      from board_has_label [OF assms this] obtain x where x: "label_of (graph s) (Cell r c) = Inr x"
        by blast
      with False out Some m have "x \<noteq> BLANK" by (auto simp: valid_move_def)
      with x out False show ?thesis by (simp add: set_cop_positions_def Some m)
    qed
  qed
qed

lemma set_robber_position_board:
  assumes "tictactoe_board (graph s)"
  shows "set_robber_position mv s =
     Inr (if valid_move (graph s) mv then s\<lparr>graph := place ROB mv (graph s)\<rparr>
          else robber_invalid_step s)"
proof (cases mv)
  case None
  then show ?thesis by (simp add: set_robber_position_def valid_move_def)
next
  case (Some m)
  obtain r c where m: "m = (r, c)" by (cases m)
  show ?thesis
  proof (cases "valid_move (graph s) mv")
    case True
    with Some m have v: "valid_move (graph s) (Some (r, c))" by simp
    then have rng: "\<not> (r < 0 \<or> c < 0 \<or> r > 2 \<or> c > 2)"
      and bl: "label_of (graph s) (Cell r c) = Inr BLANK"
      by (auto simp: valid_move_def)
    from board_set_label(1) [OF assms valid_move_node [OF v]] v rng bl show ?thesis
      by (simp add: set_robber_position_def Some m place_def)
  next
    case False
    show ?thesis
    proof (cases "r < 0 \<or> c < 0 \<or> r > 2 \<or> c > 2")
      case True
      with False show ?thesis by (simp add: set_robber_position_def Some m)
    next
      case out: False
      then have "r \<in> {0, 1, 2}" "c \<in> {0, 1, 2}" by auto
      then have "Cell r c \<in> set (map fst (node_attr init_tictactoe_graph))"
        unfolding init_keys by auto
      from board_has_label [OF assms this] obtain x where x: "label_of (graph s) (Cell r c) = Inr x"
        by blast
      with False out Some m have "x \<noteq> BLANK" by (auto simp: valid_move_def)
      with x out False show ?thesis by (simp add: set_robber_position_def Some m)
    qed
  qed
qed

lemma three_in_a_row_won:
  "tictactoe_board g \<Longrightarrow> three_in_a_row l g = Inr (if won l g then 1 else 0)"
  by (simp add: won_def three_in_a_row_board)

lemma game_tied_full:
  "tictactoe_board g \<Longrightarrow> game_tied g = Inr (if full g then 1 else 0)"
  by (simp add: full_def game_tied_board)

lemma call_cops_graph: "graph (snd (call_cops s)) = graph s"
  by (simp add: call_cops_def outcome_defs split: option.splits prod.splits outcome.splits)

lemma call_robber_graph: "graph (snd (call_robber s)) = graph s"
  by (simp add: call_robber_def outcome_defs split: option.splits prod.splits outcome.splits)

lemma cops_step_ply:
  assumes "tictactoe_board (graph s)"
  shows "cops_step s = Inr (cops_ply s)" and "tictactoe_board (graph (cops_ply s))"
proof -
  obtain mv s1 where c: "call_cops s = (mv, s1)" by (cases "call_cops s")
  with call_cops_graph [of s] have g1: "graph s1 = graph s" by simp
  with assms have b1: "tictactoe_board (graph s1)" by simp
  define s2 where "s2 = (if valid_move (graph s1) mv
                  then s1\<lparr>graph := place COP mv (graph s1)\<rparr>
                  else cops_invalid_step s1)"
  have b2: "tictactoe_board (graph s2)"
    using b1 by (simp add: s2_def board_place outcome_defs)
  have p: "set_cop_positions mv s1 = Inr s2"
    by (simp add: set_cop_positions_board [OF b1] s2_def)
  show "cops_step s = Inr (cops_ply s)"
    by (simp add: cops_step_def cops_ply_def c p three_in_a_row_won [OF b2] s2_def [symmetric]
          game_tied_full b2 outcome_defs Let_def)
  show "tictactoe_board (graph (cops_ply s))"
    using b2 by (simp add: cops_ply_def c s2_def [symmetric] Let_def outcome_defs)
qed

lemma robber_step_ply:
  assumes "tictactoe_board (graph s)"
  shows "robber_step s = Inr (robber_ply s)" and "tictactoe_board (graph (robber_ply s))"
proof -
  obtain mv s1 where c: "call_robber s = (mv, s1)" by (cases "call_robber s")
  with call_robber_graph [of s] have g1: "graph s1 = graph s" by simp
  with assms have b1: "tictactoe_board (graph s1)" by simp
  define s2 where "s2 = (if valid_move (graph s1) mv
                  then s1\<lparr>graph := place ROB mv (graph s1)\<rparr>
                  else robber_invalid_step s1)"
  have b2: "tictactoe_board (graph s2)"
    using b1 by (simp add: s2_def board_place outcome_defs)
  have p: "set_robber_position mv s1 = Inr s2"
    by (simp add: set_robber_position_board [OF b1] s2_def)
  show "robber_step s = Inr (robber_ply s)"
    by (simp add: robber_step_def robber_ply_def c p three_in_a_row_won [OF b2] s2_def [symmetric]
          outcome_defs Let_def)
  show "tictactoe_board (graph (robber_ply s))"
    using b2 by (simp add: robber_ply_def c s2_def [symmetric] Let_def outcome_defs)
qed

lemma next_round_ply:
  assumes "tictactoe_board (graph s)"
  shows "next_round s = Inr (ply s)" and "tictactoe_board (graph (ply s))"
  using assms
  by (simp_all add: next_round_def ply_def Let_def cops_step_ply robber_step_ply)

lemma play_plies:
  "tictactoe_board (graph s) \<Longrightarrow>
     play n s = Inr ((ply ^^ n) s) \<and> tictactoe_board (graph ((ply ^^ n) s))"
  by (induction n) (simp_all add: next_round_ply)

lemma board_Game: "tictactoe_board (graph (Game ce re))"
  by (simp add: Game_def init_cops_def init_robber_def Let_def board_init outcome_defs
        split: outcome.splits)

section \<open>What a ply does to the game\<close>

lemma valid_move_None [simp]: "\<not> valid_move g None"
  by (simp add: valid_move_def)

lemma place_None [simp]: "place l None g = g"
  by (simp add: place_def)

lemma place_invalid: "\<not> valid_move g mv \<Longrightarrow> place l mv g = g"
  by (auto simp: place_def split: option.splits prod.splits)

text \<open>The three ways in which the \<^verbatim>\<open>try\<close> block of a step ends.\<close>

lemma call_cops_cases [case_names no_instance raises returns]:
  assumes "cops s = None \<Longrightarrow> call_cops s = (None, cops_exception (log_info s)) \<Longrightarrow> P"
    and "\<And>i e. cops s = Some i \<Longrightarrow> istep i (istate i) (graph s) = (Raises, e) \<Longrightarrow>
           call_cops s = (None, cops_exception (log_info
             (s\<lparr>cops := Some (Inst e (istep i)), calls := calls s @ [Step_cops]\<rparr>))) \<Longrightarrow> P"
    and "\<And>i m e. cops s = Some i \<Longrightarrow> istep i (istate i) (graph s) = (Returns m, e) \<Longrightarrow>
           call_cops s = (m, s\<lparr>cops := Some (Inst e (istep i)), calls := calls s @ [Step_cops]\<rparr>)
           \<Longrightarrow> P"
  shows P
proof (cases "cops s")
  case None
  then show ?thesis using assms(1) by (simp add: call_cops_def)
next
  case (Some i)
  obtain a e where st: "istep i (istate i) (graph s) = (a, e)"
    by (cases "istep i (istate i) (graph s)")
  show ?thesis
  proof (cases a)
    case (Returns m)
    with Some st show ?thesis using assms(3) [of i m e] by (simp add: call_cops_def)
  next
    case Raises
    with Some st show ?thesis using assms(2) [of i e] by (simp add: call_cops_def)
  qed
qed

lemma call_robber_cases [case_names no_instance raises returns]:
  assumes "robber s = None \<Longrightarrow> call_robber s = (None, robber_exception (log_info s)) \<Longrightarrow> P"
    and "\<And>i e. robber s = Some i \<Longrightarrow> istep i (istate i) (graph s) = (Raises, e) \<Longrightarrow>
           call_robber s = (None, robber_exception (log_info
             (s\<lparr>robber := Some (Inst e (istep i)), calls := calls s @ [Step_robber]\<rparr>))) \<Longrightarrow> P"
    and "\<And>i m e. robber s = Some i \<Longrightarrow> istep i (istate i) (graph s) = (Returns m, e) \<Longrightarrow>
           call_robber s =
             (m, s\<lparr>robber := Some (Inst e (istep i)), calls := calls s @ [Step_robber]\<rparr>)
           \<Longrightarrow> P"
  shows P
proof (cases "robber s")
  case None
  then show ?thesis using assms(1) by (simp add: call_robber_def)
next
  case (Some i)
  obtain a e where st: "istep i (istate i) (graph s) = (a, e)"
    by (cases "istep i (istate i) (graph s)")
  show ?thesis
  proof (cases a)
    case (Returns m)
    with Some st show ?thesis using assms(3) [of i m e] by (simp add: call_robber_def)
  next
    case Raises
    with Some st show ?thesis using assms(2) [of i e] by (simp add: call_robber_def)
  qed
qed

lemmas cops_ply_unfold = cops_ply_def outcome_defs Let_def
lemmas robber_ply_unfold = robber_ply_def outcome_defs Let_def

lemma cops_ply_round: "p_round (cops_ply s) = p_round s"
  by (cases s rule: call_cops_cases) (simp_all add: cops_ply_unfold)

lemma robber_ply_round: "p_round (robber_ply s) = p_round s"
  by (cases s rule: call_robber_cases) (simp_all add: robber_ply_unfold)

lemma cops_ply_latch_result: "p_result s \<noteq> 0 \<Longrightarrow> p_result (cops_ply s) = p_result s"
  by (cases s rule: call_cops_cases) (simp_all add: cops_ply_unfold)

lemma robber_ply_latch_result: "p_result s \<noteq> 0 \<Longrightarrow> p_result (robber_ply s) = p_result s"
  by (cases s rule: call_robber_cases) (simp_all add: robber_ply_unfold)

lemma cops_ply_latch_status:
  "p_status s \<noteq> ''Game continues'' \<Longrightarrow> p_status (cops_ply s) = p_status s"
  by (cases s rule: call_cops_cases) (simp_all add: cops_ply_unfold)

lemma robber_ply_latch_status:
  "p_status s \<noteq> ''Game continues'' \<Longrightarrow> p_status (robber_ply s) = p_status s"
  by (cases s rule: call_robber_cases) (simp_all add: robber_ply_unfold)

lemma cops_ply_sync:
  "(p_result s = 0 \<longleftrightarrow> p_status s = ''Game continues'') \<Longrightarrow>
   (p_result (cops_ply s) = 0 \<longleftrightarrow> p_status (cops_ply s) = ''Game continues'')"
  by (cases s rule: call_cops_cases) (simp_all add: cops_ply_unfold)

lemma robber_ply_sync:
  "(p_result s = 0 \<longleftrightarrow> p_status s = ''Game continues'') \<Longrightarrow>
   (p_result (robber_ply s) = 0 \<longleftrightarrow> p_status (robber_ply s) = ''Game continues'')"
  by (cases s rule: call_robber_cases) (simp_all add: robber_ply_unfold)

lemma cops_ply_instances:
  "(cops (cops_ply s) = None) = (cops s = None)" "robber (cops_ply s) = robber s"
  by (cases s rule: call_cops_cases; simp add: cops_ply_unfold)+

lemma robber_ply_instances:
  "(robber (robber_ply s) = None) = (robber s = None)" "cops (robber_ply s) = cops s"
  by (cases s rule: call_robber_cases; simp add: robber_ply_unfold)+

lemma cops_ply_graph:
  "graph (cops_ply s) =
     (case cops_answer s of Returns mv \<Rightarrow> place COP mv (graph s) | Raises \<Rightarrow> graph s)"
  by (cases s rule: call_cops_cases) (simp_all add: cops_ply_unfold cops_answer_def place_invalid)

lemma robber_ply_graph:
  "graph (robber_ply s) =
     (case robber_answer s of Returns mv \<Rightarrow> place ROB mv (graph s) | Raises \<Rightarrow> graph s)"
  by (cases s rule: call_robber_cases)
    (simp_all add: robber_ply_unfold robber_answer_def place_invalid)

lemma cops_ply_calls:
  "calls (cops_ply s) =
     calls s @ (if cops s = None then [] else [Step_cops]) @
       (if cops_answer s = Raises then [Log_info] else [])"
  by (cases s rule: call_cops_cases) (simp_all add: cops_ply_unfold cops_answer_def)

lemma robber_ply_calls:
  "calls (robber_ply s) =
     calls s @ (if robber s = None then [] else [Step_robber]) @
       (if robber_answer s = Raises then [Log_info] else [])"
  by (cases s rule: call_robber_cases) (simp_all add: robber_ply_unfold robber_answer_def)

section \<open>The outcome of a ply of a game that continues\<close>

lemma cops_ply_outcome:
  assumes "p_result s = 0" and "p_status s = ''Game continues''"
  shows "(p_result (cops_ply s), p_status (cops_ply s)) =
     (case cops_answer s of
        Raises \<Rightarrow> (- 1, ''Exception in cops call'')
      | Returns mv \<Rightarrow>
          if \<not> valid_move (graph s) mv then (- 1, ''Cops invalid step'')
          else if won COP (place COP mv (graph s)) then (1, ''Robber caught'')
          else if full (place COP mv (graph s)) then (- 1, ''Cops shift ends'')
          else (0, ''Game continues''))"
  using assms
  by (cases s rule: call_cops_cases) (simp_all add: cops_ply_unfold cops_answer_def)

lemma robber_ply_outcome:
  assumes "p_result s = 0" and "p_status s = ''Game continues''"
  shows "(p_result (robber_ply s), p_status (robber_ply s)) =
     (case robber_answer s of
        Raises \<Rightarrow> (1, ''Exception in robber call'')
      | Returns mv \<Rightarrow>
          if \<not> valid_move (graph s) mv then (1, ''Robber invalid step'')
          else if won ROB (place ROB mv (graph s)) then (- 1, ''Robber escapes'')
          else (0, ''Game continues''))"
  using assms
  by (cases s rule: call_robber_cases) (simp_all add: robber_ply_unfold robber_answer_def)

lemma robber_ply_no_tie:
  "p_status s \<noteq> ''Cops shift ends'' \<Longrightarrow> p_status (robber_ply s) \<noteq> ''Cops shift ends''"
  by (cases s rule: call_robber_cases) (simp_all add: robber_ply_unfold)

section \<open>The ply of either side\<close>

lemma ply_cases [case_names cops robber]:
  assumes "cops_to_move s \<Longrightarrow> ply s = cops_ply (s\<lparr>p_round := p_round s + 1\<rparr>) \<Longrightarrow> P"
    and "\<not> cops_to_move s \<Longrightarrow> ply s = robber_ply (s\<lparr>p_round := p_round s + 1\<rparr>) \<Longrightarrow> P"
  shows P
  using assms by (cases "cops_to_move s") (simp_all add: ply_def cops_to_move_def Let_def)

lemma answer_round [simp]:
  "cops_answer (s\<lparr>p_round := r\<rparr>) = cops_answer s"
  "robber_answer (s\<lparr>p_round := r\<rparr>) = robber_answer s"
  by (simp_all add: cops_answer_def robber_answer_def split: option.splits)

lemma ply_round: "p_round (ply s) = p_round s + 1"
  by (cases s rule: ply_cases) (simp_all add: cops_ply_round robber_ply_round)

lemma ply_latch:
  "p_result s \<noteq> 0 \<Longrightarrow> p_result (ply s) = p_result s"
  "p_status s \<noteq> ''Game continues'' \<Longrightarrow> p_status (ply s) = p_status s"
  by (cases s rule: ply_cases;
      simp add: cops_ply_latch_result robber_ply_latch_result cops_ply_latch_status
        robber_ply_latch_status)+

lemma ply_sync:
  assumes "p_result s = 0 \<longleftrightarrow> p_status s = ''Game continues''"
  shows "p_result (ply s) = 0 \<longleftrightarrow> p_status (ply s) = ''Game continues''"
proof (cases s rule: ply_cases)
  case cops
  from cops_ply_sync [of "s\<lparr>p_round := p_round s + 1\<rparr>"] assms cops(2) show ?thesis by simp
next
  case robber
  from robber_ply_sync [of "s\<lparr>p_round := p_round s + 1\<rparr>"] assms robber(2) show ?thesis by simp
qed

lemma ply_instances:
  "(cops (ply s) = None) = (cops s = None)" "(robber (ply s) = None) = (robber s = None)"
  by (cases s rule: ply_cases; simp add: cops_ply_instances robber_ply_instances)+

lemma ply_graph:
  "graph (ply s) =
     (case acting_step s of
        Returns mv \<Rightarrow> place (acting_label s) mv (graph s)
      | Raises \<Rightarrow> graph s)"
  by (cases s rule: ply_cases)
    (simp_all add: cops_ply_graph robber_ply_graph acting_step_def acting_label_def
       split: outcome.splits)

lemma ply_new_calls:
  "new_calls s (ply s) =
     (if cops_to_move s then (if cops s = None then [] else [Step_cops])
      else (if robber s = None then [] else [Step_robber])) @
     (if acting_step s = Raises then [Log_info] else [])"
  by (cases s rule: ply_cases)
    (simp_all add: new_calls_def cops_ply_calls robber_ply_calls acting_step_def)

lemma ply_outcome:
  assumes "p_result s = 0" and "p_status s = ''Game continues''"
  shows "(p_result (ply s), p_status (ply s)) =
     (if cops_to_move s then
        (case acting_step s of
           Raises \<Rightarrow> (- 1, ''Exception in cops call'')
         | Returns mv \<Rightarrow>
             if \<not> valid_move (graph s) mv then (- 1, ''Cops invalid step'')
             else if won COP (place COP mv (graph s)) then (1, ''Robber caught'')
             else if full (place COP mv (graph s)) then (- 1, ''Cops shift ends'')
             else (0, ''Game continues''))
      else
        (case acting_step s of
           Raises \<Rightarrow> (1, ''Exception in robber call'')
         | Returns mv \<Rightarrow>
             if \<not> valid_move (graph s) mv then (1, ''Robber invalid step'')
             else if won ROB (place ROB mv (graph s)) then (- 1, ''Robber escapes'')
             else (0, ''Game continues'')))"
proof (cases s rule: ply_cases)
  case cops
  from cops_ply_outcome [of "s\<lparr>p_round := p_round s + 1\<rparr>"] assms cops show ?thesis
    by (simp add: acting_step_def split: outcome.splits)
next
  case robber
  from robber_ply_outcome [of "s\<lparr>p_round := p_round s + 1\<rparr>"] assms robber show ?thesis
    by (simp add: acting_step_def split: outcome.splits)
qed

lemma robber_ply_keeps_no_tie:
  assumes "\<not> cops_to_move s" and "p_status s \<noteq> ''Cops shift ends''"
  shows "p_status (ply s) \<noteq> ''Cops shift ends''"
proof (cases s rule: ply_cases)
  case cops
  with assms show ?thesis by simp
next
  case robber
  from robber_ply_no_tie [of "s\<lparr>p_round := p_round s + 1\<rparr>"] assms robber show ?thesis by simp
qed

section \<open>Every game that the referee produces\<close>

lemma Game_fields:
  "p_round (Game ce re) = - 1"
  "p_result (Game ce re) = 0 \<longleftrightarrow> p_status (Game ce re) = ''Game continues''"
  "p_result (Game ce re) = 0 \<longleftrightarrow> ce \<noteq> Raises \<and> re \<noteq> Raises"
  "cops (Game ce re) = None \<longleftrightarrow> ce = Raises"
  "robber (Game ce re) = None \<longleftrightarrow> ce = Raises \<or> re = Raises"
  by (auto simp: Game_def init_cops_def init_robber_def Let_def outcome_defs
        split: outcome.splits)

lemma reached_Game: "reached 0 (Game ce re)"
  using Game_fields [of ce re] board_Game [of ce re] by (auto simp: reached_def)

lemma reached_ply:
  assumes "reached n s"
  shows "reached (Suc n) (ply s)"
proof -
  from assms have b: "tictactoe_board (graph s)" and r: "p_round s = int n - 1"
    and sy: "p_result s = 0 \<longleftrightarrow> p_status s = ''Game continues''"
    and i: "p_result s = 0 \<longrightarrow> cops s \<noteq> None \<and> robber s \<noteq> None"
    by (simp_all add: reached_def)
  have "p_result (ply s) = 0 \<longrightarrow> p_result s = 0"
    by (cases "p_result s = 0") (simp_all add: ply_latch)
  with i have "p_result (ply s) = 0 \<longrightarrow> cops (ply s) \<noteq> None \<and> robber (ply s) \<noteq> None"
    by (simp add: ply_instances)
  with next_round_ply(2) [OF b] r ply_sync [OF sy] show ?thesis
    by (simp add: reached_def ply_round)
qed

lemma reached_plies: "reached n ((ply ^^ n) (Game ce re))"
  by (induction n) (simp_all add: reached_Game reached_ply)

lemma play_Game:
  "play n (Game ce re) = Inr ((ply ^^ n) (Game ce re))"
  using play_plies [OF board_Game] by blast

lemma play_reached:
  assumes "play n (Game ce re) = Inr s"
  shows "reached n s" and "next_round s = Inr (ply s)"
    and "play (n + m) (Game ce re) = Inr ((ply ^^ m) s)"
proof -
  from assms have s: "s = (ply ^^ n) (Game ce re)" by (simp add: play_Game)
  then show "reached n s" by (simp add: reached_plies)
  then show "next_round s = Inr (ply s)" by (simp add: reached_def next_round_ply)
  show "play (n + m) (Game ce re) = Inr ((ply ^^ m) s)"
    unfolding s play_Game by (simp add: funpow_add add.commute)
qed

lemma reached_turn: "reached n s \<Longrightarrow> cops_to_move s \<longleftrightarrow> even n"
  by (simp add: reached_def cops_to_move_def flip: even_iff_mod_2_eq_zero)

lemma plies_instances:
  "cops ((ply ^^ n) (Game ce re)) = None \<longleftrightarrow> ce = Raises"
  "robber ((ply ^^ n) (Game ce re)) = None \<longleftrightarrow> ce = Raises \<or> re = Raises"
  by (induction n) (simp_all add: Game_fields ply_instances)

lemma plies_latch:
  assumes "p_result s \<noteq> 0" and "p_status s \<noteq> ''Game continues''"
  shows "p_result ((ply ^^ m) s) = p_result s \<and> p_status ((ply ^^ m) s) = p_status s"
  using assms by (induction m) (simp_all add: ply_latch)

lemma observe_play: "observe f n s = Inr x \<longleftrightarrow> (\<exists>s'. play n s = Inr s' \<and> f s' = x)"
  by (auto simp: observe_def bind_e_Inr_iff)

section \<open>The outcome latch\<close>

text \<open>
  Claim C1. In every game, after any number of calls of \<^verbatim>\<open>next_round\<close>: once
  \<^verbatim>\<open>result()\<close> is not zero, any further calls of \<^verbatim>\<open>next_round\<close> return and leave
  both \<^verbatim>\<open>result()\<close> and \<^verbatim>\<open>status()\<close> as they are.
\<close>

theorem decided_outcome_is_latched:
  assumes "play n (Game ce re) = Inr s" and "result s \<noteq> 0"
  shows "\<exists>s'. play (n + m) (Game ce re) = Inr s' \<and> result s' = result s \<and> status s' = status s"
proof -
  from play_reached(1) [OF assms(1)] assms(2) have "p_status s \<noteq> ''Game continues''"
    by (simp add: reached_def result_def)
  with assms(2) plies_latch [of s m] play_reached(3) [OF assms(1), of m] show ?thesis
    by (simp add: result_def status_def)
qed

theorem decided_outcome_is_latched_witness:
  "observe result 1 forfeit_game = Inr (- 1) \<and>
   observe status 1 forfeit_game = Inr ''Cops invalid step'' \<and>
   observe result 5 forfeit_game = Inr (- 1) \<and>
   observe status 5 forfeit_game = Inr ''Cops invalid step''"
proof -
  have r: "observe result 1 forfeit_game = Inr (- 1)" by code_simp
  have t: "observe status 1 forfeit_game = Inr ''Cops invalid step''" by code_simp
  from r t obtain s where s: "play 1 (Game (plays [(5, 5)]) (plays [])) = Inr s"
    and o: "result s = - 1" "status s = ''Cops invalid step''"
    by (auto simp: observe_play forfeit_game_def)
  from decided_outcome_is_latched [OF s, of 4] o r t show ?thesis
    by (auto simp: observe_play forfeit_game_def)
qed

text \<open>
  Claim C10. In every state that construction and calls of \<^verbatim>\<open>next_round\<close> reach,
  \<^verbatim>\<open>result()\<close> is zero exactly when \<^verbatim>\<open>status()\<close> is \<open>Game continues\<close>.
\<close>

theorem result_zero_iff_game_continues:
  assumes "play n (Game ce re) = Inr s"
  shows "result s = 0 \<longleftrightarrow> status s = ''Game continues''"
  using play_reached(1) [OF assms] by (simp add: reached_def result_def status_def)

theorem result_zero_iff_game_continues_witness:
  "observe result 1 robber_raises_game = Inr 0 \<and>
   observe status 1 robber_raises_game = Inr ''Game continues'' \<and>
   observe result 2 robber_raises_game = Inr 1 \<and>
   observe status 2 robber_raises_game \<noteq> Inr ''Game continues''"
proof -
  have r1: "observe result 1 robber_raises_game = Inr 0" by code_simp
  have r2: "observe result 2 robber_raises_game = Inr 1" by code_simp
  from r1 obtain s1 where s1: "play 1 (Game (plays [(1, 1)]) (Returns (scripted [Raises]))) = Inr s1"
    and o1: "result s1 = 0"
    by (auto simp: observe_play robber_raises_game_def)
  from r2 obtain s2 where s2: "play 2 (Game (plays [(1, 1)]) (Returns (scripted [Raises]))) = Inr s2"
    and o2: "result s2 = 1"
    by (auto simp: observe_play robber_raises_game_def)
  from result_zero_iff_game_continues [OF s1] o1 have "status s1 = ''Game continues''" by simp
  moreover from result_zero_iff_game_continues [OF s2] o2 have "status s2 \<noteq> ''Game continues''"
    by simp
  ultimately show ?thesis using r1 r2 s1 s2
    by (simp add: observe_def robber_raises_game_def)
qed

section \<open>Failing engines\<close>

text \<open>
  Claim C6. When the Cops' engine raises as the constructor calls it, the constructor
  returns a game with \<^verbatim>\<open>result()\<close> \<open>-1\<close> and \<^verbatim>\<open>status()\<close> \<open>Exception in cops call\<close>;
  the Robber's engine was never called and the game has no Robber instance.
\<close>

theorem cops_engine_raises_at_construction:
  "result (Game Raises re) = - 1 \<and>
   status (Game Raises re) = ''Exception in cops call'' \<and>
   Construct_robber \<notin> set (calls (Game Raises re)) \<and>
   robber (Game Raises re) = None"
  by (simp add: Game_def init_cops_def Let_def outcome_defs result_def status_def)

theorem cops_engine_raises_at_construction_witness:
  "result no_cops_game = - 1 \<and> status no_cops_game = ''Exception in cops call'' \<and>
   calls no_cops_game = [Construct_cops, Log_info] \<and> robber no_cops_game = None"
proof -
  have c: "calls no_cops_game = [Construct_cops, Log_info]"
    by (simp add: no_cops_game_def Game_def init_cops_def Let_def outcome_defs)
  have "result no_cops_game = - 1 \<and> status no_cops_game = ''Exception in cops call'' \<and>
    Construct_robber \<notin> set (calls no_cops_game) \<and> robber no_cops_game = None"
    unfolding no_cops_game_def by (rule cops_engine_raises_at_construction)
  with c show ?thesis by simp
qed

text \<open>
  Claim C5. When the step of the acting engine raises in a ply of a game that continues,
  the call of \<^verbatim>\<open>next_round\<close> returns, the exception is logged, and the outcome is
  \<open>-1\<close> with \<open>Exception in cops call\<close> on a ply of the Cops, \<open>1\<close> with
  \<open>Exception in robber call\<close> on a ply of the Robber: the check of the absent move that
  follows does not put the status of an invalid step in its place.
\<close>

theorem step_exception_decides:
  assumes "play n (Game ce re) = Inr s" and "result s = 0" and "acting_step s = Raises"
  shows "\<exists>s'. next_round s = Inr s' \<and> Log_info \<in> set (new_calls s s') \<and>
     (if cops_to_move s
      then even n \<and> result s' = - 1 \<and> status s' = ''Exception in cops call''
      else odd n \<and> result s' = 1 \<and> status s' = ''Exception in robber call'')"
proof -
  note r = play_reached(1) [OF assms(1)]
  with assms(2) have c: "p_result s = 0" "p_status s = ''Game continues''"
    by (simp_all add: reached_def result_def)
  from ply_outcome [OF c] assms(3)
  have "p_result (ply s) = (if cops_to_move s then - 1 else 1)"
    and "p_status (ply s) =
      (if cops_to_move s then ''Exception in cops call'' else ''Exception in robber call'')"
    by (simp_all split: if_splits)
  with play_reached(2) [OF assms(1)] reached_turn [OF r] assms(3) show ?thesis
    by (simp add: ply_new_calls result_def status_def)
qed

theorem step_exception_decides_witness:
  "observe result 0 cops_raise_game = Inr 0 \<and>
   observe acting_step 0 cops_raise_game = Inr Raises \<and>
   observe result 1 cops_raise_game = Inr (- 1) \<and>
   observe status 1 cops_raise_game = Inr ''Exception in cops call''"
proof -
  have s: "play 0 (Game (Returns (scripted [Raises])) (plays [])) = Inr cops_raise_game"
    by (simp add: cops_raise_game_def)
  have r: "result cops_raise_game = 0" by code_simp
  have a: "acting_step cops_raise_game = Raises" by code_simp
  have c: "cops_to_move cops_raise_game" by code_simp
  from step_exception_decides [OF s r a] c r a show ?thesis
    by (auto simp: observe_def)
qed

section \<open>Rounds and turns\<close>

text \<open>
  Claim C9, as stated, says that every even call of \<^verbatim>\<open>next_round\<close> calls the step of
  the Cops. In the game whose Cops engine raised at construction there is no Cops instance:
  the first call of \<^verbatim>\<open>next_round\<close> logs the \<^verbatim>\<open>AttributeError\<close> and calls no step.
\<close>

theorem even_call_without_cops_step:
  "observe calls 0 no_cops_game = Inr [Construct_cops, Log_info] \<and>
   observe calls 1 no_cops_game = Inr [Construct_cops, Log_info, Log_info] \<and>
   observe p_round 1 no_cops_game = Inr 0"
proof -
  have "observe calls 0 no_cops_game = Inr [Construct_cops, Log_info]" by code_simp
  moreover have "observe calls 1 no_cops_game = Inr [Construct_cops, Log_info, Log_info]"
    by code_simp
  moreover have "observe p_round 1 no_cops_game = Inr 0" by code_simp
  ultimately show ?thesis by simp
qed

text \<open>
  Claim C9, amended. The round counter is \<open>-1\<close> after construction and every call of
  \<^verbatim>\<open>next_round\<close> adds one to it, so it is \<open>n - 1\<close> after \<open>n\<close> calls. The \<open>n\<close>-th call
  (counted from 0) calls the step of the Cops exactly when \<open>n\<close> is even and the Cops'
  engine returned an instance at construction; it calls the step of the Robber exactly
  when \<open>n\<close> is odd and both engines returned an instance.
\<close>

theorem round_counter_and_turns:
  assumes "play n (Game ce re) = Inr s"
  shows "p_round (Game ce re) = - 1 \<and> p_round s = int n - 1 \<and>
     (\<exists>s'. next_round s = Inr s' \<and> p_round s' = p_round s + 1 \<and>
        (Step_cops \<in> set (new_calls s s') \<longleftrightarrow> even n \<and> ce \<noteq> Raises) \<and>
        (Step_robber \<in> set (new_calls s s') \<longleftrightarrow> odd n \<and> ce \<noteq> Raises \<and> re \<noteq> Raises))"
proof -
  note r = play_reached(1) [OF assms]
  from assms have s: "s = (ply ^^ n) (Game ce re)" by (simp add: play_Game)
  have i: "cops s = None \<longleftrightarrow> ce = Raises" "robber s = None \<longleftrightarrow> ce = Raises \<or> re = Raises"
    unfolding s by (rule plies_instances)+
  have "Step_cops \<in> set (new_calls s (ply s)) \<longleftrightarrow> even n \<and> ce \<noteq> Raises"
    using i reached_turn [OF r] by (simp add: ply_new_calls)
  moreover have "Step_robber \<in> set (new_calls s (ply s)) \<longleftrightarrow>
      odd n \<and> ce \<noteq> Raises \<and> re \<noteq> Raises"
    using i reached_turn [OF r] by (simp add: ply_new_calls)
  moreover from r have "p_round s = int n - 1" by (simp add: reached_def)
  ultimately show ?thesis
    using play_reached(2) [OF assms] by (simp add: ply_round Game_fields)
qed

theorem round_counter_and_turns_witness:
  "observe p_round 3 draw_game = Inr 2 \<and> observe p_round 4 draw_game = Inr 3 \<and>
   observe calls 3 draw_game =
     Inr [Construct_cops, Construct_robber, Step_cops, Step_robber, Step_cops] \<and>
   observe calls 4 draw_game =
     Inr [Construct_cops, Construct_robber, Step_cops, Step_robber, Step_cops, Step_robber]"
proof -
  let ?ce = "plays [(0, 0), (0, 2), (1, 0), (2, 1), (2, 2)]"
  let ?re = "plays [(0, 1), (1, 1), (1, 2), (2, 0)]"
  have c3: "observe calls 3 draw_game =
     Inr [Construct_cops, Construct_robber, Step_cops, Step_robber, Step_cops]" by code_simp
  have c4: "observe calls 4 draw_game =
     Inr [Construct_cops, Construct_robber, Step_cops, Step_robber, Step_cops, Step_robber]"
    by code_simp
  from c3 obtain s where s: "play 3 (Game ?ce ?re) = Inr s"
    by (auto simp: observe_play draw_game_def)
  from round_counter_and_turns [OF s] obtain s' where
    "p_round s = 2" "next_round s = Inr s'" "p_round s' = p_round s + 1"
    by auto
  with s have "observe p_round 3 draw_game = Inr 2" "observe p_round 4 draw_game = Inr 3"
    by (simp_all add: observe_def draw_game_def eval_nat_numeral)
  with c3 c4 show ?thesis by simp
qed

section \<open>Invalid moves\<close>

lemma place_valid:
  assumes "tictactoe_board g" and "valid_move g (Some (r, c))"
  shows "set_label (Cell r c) l g = Inr (place l (Some (r, c)) g)"
  using board_set_label(1) [OF assms(1) valid_move_node [OF assms(2)]] assms(2)
  by (simp add: place_def)

text \<open>
  Claim C4, as stated, speaks of each ply. In the game where the Cops answer \<open>(5, 5)\<close>
  first, the second ply is a ply of the Robber whose engine returns \<^verbatim>\<open>None\<close>; the
  outcome after it is still \<open>-1\<close> with \<open>Cops invalid step\<close>, not \<open>1\<close> with
  \<open>Robber invalid step\<close>.
\<close>

theorem invalid_move_after_the_decision:
  "observe cops_to_move 1 forfeit_game = Inr False \<and>
   observe acting_step 1 forfeit_game = Inr (Returns None) \<and>
   observe result 2 forfeit_game = Inr (- 1) \<and>
   observe status 2 forfeit_game = Inr ''Cops invalid step''"
proof -
  have "observe cops_to_move 1 forfeit_game = Inr False" by code_simp
  moreover have "observe acting_step 1 forfeit_game = Inr (Returns None)" by code_simp
  moreover have "observe result 2 forfeit_game = Inr (- 1)" by code_simp
  moreover have "observe status 2 forfeit_game = Inr ''Cops invalid step''" by code_simp
  ultimately show ?thesis by simp
qed

text \<open>
  Claim C4, amended. In every ply in which the step of the acting engine returns: if the
  move is absent, or has its row or column outside \<open>[0, 2]\<close>, or targets a cell that is not
  blank, then the graph stays as it is and, when the game still continues before the ply,
  the outcome after it is \<open>-1\<close> with \<open>Cops invalid step\<close> on a ply of the Cops and \<open>1\<close>
  with \<open>Robber invalid step\<close> on a ply of the Robber; otherwise the target cell gets the
  mark of the acting side, \<open>C\<close> or \<open>R\<close>, and nothing else changes in the graph.
\<close>

theorem invalid_move_forfeits:
  assumes "play n (Game ce re) = Inr s" and "acting_step s = Returns mv"
  shows "\<exists>s'. next_round s = Inr s' \<and> (cops_to_move s \<longleftrightarrow> even n) \<and>
     (if valid_move (graph s) mv
      then \<exists>r c. mv = Some (r, c) \<and>
             set_label (Cell r c) (if cops_to_move s then COP else ROB) (graph s) =
               Inr (graph s')
      else graph s' = graph s \<and>
           (result s = 0 \<longrightarrow>
              (if cops_to_move s
               then result s' = - 1 \<and> status s' = ''Cops invalid step''
               else result s' = 1 \<and> status s' = ''Robber invalid step'')))"
proof -
  note r = play_reached(1) [OF assms(1)]
  then have b: "tictactoe_board (graph s)" by (simp add: reached_def)
  have g: "graph (ply s) = place (acting_label s) mv (graph s)"
    by (simp add: ply_graph assms(2))
  show ?thesis
  proof (cases "valid_move (graph s) mv")
    case True
    then obtain r c where m: "mv = Some (r, c)"
      by (cases mv) auto
    with True have "valid_move (graph s) (Some (r, c))" by simp
    from place_valid [OF b this, of "acting_label s"] g m True
    show ?thesis
      using play_reached(2) [OF assms(1)] reached_turn [OF r]
      by (simp add: acting_label_def)
  next
    case False
    have "result s = 0 \<longrightarrow>
        (if cops_to_move s
         then result (ply s) = - 1 \<and> status (ply s) = ''Cops invalid step''
         else result (ply s) = 1 \<and> status (ply s) = ''Robber invalid step'')"
    proof
      assume "result s = 0"
      with r have c: "p_result s = 0" "p_status s = ''Game continues''"
        by (simp_all add: reached_def result_def)
      from ply_outcome [OF c] assms(2) False
      show "if cops_to_move s
         then result (ply s) = - 1 \<and> status (ply s) = ''Cops invalid step''
         else result (ply s) = 1 \<and> status (ply s) = ''Robber invalid step''"
        by (simp add: result_def status_def split: if_splits)
    qed
    with False g show ?thesis
      using play_reached(2) [OF assms(1)] reached_turn [OF r]
      by (simp add: place_invalid)
  qed
qed

theorem invalid_move_forfeits_witness:
  "observe acting_step 0 forfeit_game = Inr (Returns (Some (5, 5))) \<and>
   observe result 1 forfeit_game = Inr (- 1) \<and>
   observe status 1 forfeit_game = Inr ''Cops invalid step'' \<and>
   observe graph 1 forfeit_game = Inr (graph forfeit_game)"
proof -
  have s: "play 0 (Game (plays [(5, 5)]) (plays [])) = Inr forfeit_game"
    by (simp add: forfeit_game_def)
  have a: "acting_step forfeit_game = Returns (Some (5, 5))" by code_simp
  have v: "\<not> valid_move (graph forfeit_game) (Some (5, 5))"
    by (simp add: valid_move_def)
  have r: "result forfeit_game = 0" by code_simp
  have c: "cops_to_move forfeit_game" by code_simp
  from invalid_move_forfeits [OF s a] v r c a show ?thesis
    by (auto simp: observe_def)
qed

section \<open>The tie\<close>

subsection \<open>Counting the marked spaces\<close>

lemma filter_all_length: "length (filter P xs) = length xs \<longleftrightarrow> (\<forall>x\<in>set xs. P x)"
proof (induction xs)
  case Nil
  then show ?case by simp
next
  case (Cons x xs)
  have "length (filter P xs) \<noteq> Suc (length xs)"
    using length_filter_le [of P xs] by linarith
  with Cons show ?case by auto
qed

lemma filter_one_more:
  assumes "distinct xs" and "x \<in> set xs" and "\<not> P x" and "Q x"
    and "\<And>y. y \<noteq> x \<Longrightarrow> Q y = P y"
  shows "length (filter Q xs) = Suc (length (filter P xs))"
  using assms(1,2)
proof (induction xs)
  case Nil
  then show ?case by simp
next
  case (Cons y ys)
  show ?case
  proof (cases "y = x")
    case True
    with Cons.prems have "x \<notin> set ys" by simp
    with assms(5) have "\<forall>y\<in>set ys. Q y = P y" by metis
    then have "filter Q ys = filter P ys"
      by (auto intro!: filter_cong)
    with True assms(3,4) show ?thesis by simp
  next
    case False
    with Cons have "length (filter Q ys) = Suc (length (filter P ys))" by simp
    with False assms(5) [of y] show ?thesis by simp
  qed
qed

lemma distinct_spaces: "distinct spaces" and length_spaces: "length spaces = 9"
  unfolding spaces_eq by simp_all

lemma valid_move_space:
  assumes "valid_move g (Some (r, c))"
  shows "Cell r c \<in> set spaces"
proof -
  from assms have "r \<in> {0, 1, 2}" "c \<in> {0, 1, 2}"
    by (auto simp: valid_move_def)
  then show ?thesis unfolding spaces_eq by auto
qed

lemma filled_place:
  assumes "valid_move g mv" and "l \<noteq> BLANK"
  shows "filled (place l mv g) = Suc (filled g)"
proof -
  from assms(1) obtain r c where m: "mv = Some (r, c)"
    by (cases mv) auto
  with assms(1) have v: "valid_move g (Some (r, c))" by simp
  then have b: "label_of g (Cell r c) = Inr BLANK" by (simp add: valid_move_def)
  have p: "place l mv g = g\<lparr>node_attr := AList.update (Cell r c) (Some l) (node_attr g)\<rparr>"
    using v by (simp add: place_def m)
  show ?thesis
    unfolding filled_def p
    by (rule filter_one_more [OF distinct_spaces valid_move_space [OF v]])
      (simp_all add: label_of_update b assms(2))
qed

lemma full_filled:
  assumes "tictactoe_board g"
  shows "full g \<longleftrightarrow> filled g = 9"
  using filter_all_length [of "\<lambda>v. label_of g v \<noteq> Inr BLANK" spaces]
  by (simp add: full_def game_tied_board [OF assms] filled_def length_spaces)

lemma filled_Game: "filled (graph (Game ce re)) = 0"
proof -
  have "graph (Game ce re) = init_tictactoe_graph"
    by (simp add: Game_def init_cops_def init_robber_def Let_def outcome_defs
          split: outcome.splits)
  then show ?thesis
    by (simp add: filled_def spaces_eq init_graph_eq label_of_def)
qed

lemma no_line_not_won: "no_line s \<Longrightarrow> \<not> won COP (graph s) \<and> \<not> won ROB (graph s)"
  by (simp add: no_line_def won_def)

lemma all_plies_iff:
  "all_plies n P (Game ce re) \<longleftrightarrow> (\<forall>k<n. P ((ply ^^ k) (Game ce re)))"
  by (auto simp: all_plies_def list_all_iff play_Game)

subsection \<open>A game of valid moves without a line\<close>

text \<open>One valid ply that leaves no line and does not fill the grid: the game goes on.\<close>

lemma valid_ply_goes_on:
  assumes "tictactoe_board (graph s)"
    and "p_result s = 0" and "p_status s = ''Game continues''"
    and "plays_valid s" and "no_line (ply s)"
  shows "filled (graph (ply s)) = Suc (filled (graph s))"
    and "filled (graph s) < 8 \<Longrightarrow> p_result (ply s) = 0 \<and> p_status (ply s) = ''Game continues''"
    and "filled (graph s) = 8 \<Longrightarrow> cops_to_move s \<Longrightarrow>
           p_result (ply s) = - 1 \<and> p_status (ply s) = ''Cops shift ends''"
proof -
  from assms(4) obtain mv where a: "acting_step s = Returns mv" and v: "valid_move (graph s) mv"
    by (auto simp: plays_valid_def split: outcome.splits)
  have g: "graph (ply s) = place (acting_label s) mv (graph s)"
    by (simp add: ply_graph a)
  have l: "acting_label s \<noteq> BLANK" by (simp add: acting_label_def)
  from filled_place [OF v l] g show f: "filled (graph (ply s)) = Suc (filled (graph s))"
    by simp
  from no_line_not_won [OF assms(5)] g
  have w: "\<not> won COP (place (acting_label s) mv (graph s))"
    "\<not> won ROB (place (acting_label s) mv (graph s))" by simp_all
  from next_round_ply(2) [OF assms(1)] have "full (graph (ply s)) \<longleftrightarrow> filled (graph (ply s)) = 9"
    by (rule full_filled)
  with f g have fu: "full (place (acting_label s) mv (graph s)) \<longleftrightarrow> filled (graph s) = 8"
    by simp
  note o = ply_outcome [OF assms(2,3)]
  show "p_result (ply s) = 0 \<and> p_status (ply s) = ''Game continues''" if "filled (graph s) < 8"
    using o a v w fu that by (simp add: acting_label_def split: if_splits)
  show "p_result (ply s) = - 1 \<and> p_status (ply s) = ''Cops shift ends''"
    if "filled (graph s) = 8" "cops_to_move s"
    using o a v w fu that by (simp add: acting_label_def split: if_splits)
qed

lemma valid_plies_go_on:
  assumes "\<forall>k<9. plays_valid ((ply ^^ k) (Game ce re))"
    and "\<forall>k<10. no_line ((ply ^^ k) (Game ce re))"
    and "k < 9"
  shows "p_result ((ply ^^ k) (Game ce re)) = 0 \<and>
         p_status ((ply ^^ k) (Game ce re)) = ''Game continues'' \<and>
         filled (graph ((ply ^^ k) (Game ce re))) = k"
  using assms(3)
proof (induction k)
  case 0
  from assms(1) have "plays_valid (Game ce re)" "plays_valid (ply (Game ce re))"
    by (auto dest: spec [of _ 0] spec [of _ 1])
  then have "acting_step (Game ce re) \<noteq> Raises" "acting_step (ply (Game ce re)) \<noteq> Raises"
    by (auto simp: plays_valid_def)
  moreover have "cops_to_move (Game ce re)" "\<not> cops_to_move (ply (Game ce re))"
    using reached_turn [OF reached_plies, of 0 ce re] reached_turn [OF reached_plies, of 1 ce re]
    by simp_all
  ultimately have "cops (Game ce re) \<noteq> None" "robber (ply (Game ce re)) \<noteq> None"
    by (auto simp: acting_step_def cops_answer_def robber_answer_def split: option.splits)
  with plies_instances [of 0 ce re] plies_instances [of 1 ce re]
  have "ce \<noteq> Raises \<and> re \<noteq> Raises" by simp
  with Game_fields(2,3) [of ce re] show ?case by (simp add: filled_Game)
next
  case (Suc k)
  let ?s = "(ply ^^ k) (Game ce re)"
  from Suc have ih: "p_result ?s = 0" "p_status ?s = ''Game continues''"
    "filled (graph ?s) = k" by simp_all
  from reached_plies [of k ce re] have b: "tictactoe_board (graph ?s)"
    by (simp add: reached_def)
  from assms(1) Suc.prems have v: "plays_valid ?s" by simp
  from assms(2) Suc.prems have n: "no_line (ply ?s)"
    by (auto dest: spec [of _ "Suc k"])
  from valid_ply_goes_on(1,2) [OF b ih(1,2) v n] ih(3) Suc.prems show ?case by simp
qed

text \<open>
  Claim C3. Take a game in which each of the first nine plies is a valid move of the
  acting engine, Cops on the even rounds and Robber on the odd ones, and in which neither
  check of \<^verbatim>\<open>__three_in_a_row\<close>, for \<open>C\<close> or for \<open>R\<close>, finds a node before the
  first ply or after any of the nine. The nine moves fill the nine cells; the game
  continues through the first eight plies, and the ninth, a ply of the Cops, ends it with
  \<^verbatim>\<open>result()\<close> \<open>-1\<close> and \<^verbatim>\<open>status()\<close> \<open>Cops shift ends\<close>.
\<close>

theorem full_board_without_line_ends_cops_shift:
  assumes "all_plies 9 plays_valid (Game ce re)"
    and "all_plies 10 no_line (Game ce re)"
  shows "(\<forall>k<9. observe result k (Game ce re) = Inr 0) \<and>
     observe (filled \<circ> graph) 9 (Game ce re) = Inr 9 \<and>
     observe result 9 (Game ce re) = Inr (- 1) \<and>
     observe status 9 (Game ce re) = Inr ''Cops shift ends''"
proof -
  let ?s = "\<lambda>k. (ply ^^ k) (Game ce re)"
  from assms have v: "\<forall>k<9. plays_valid (?s k)" and n: "\<forall>k<10. no_line (?s k)"
    by (simp_all add: all_plies_iff)
  note go = valid_plies_go_on [OF v n]
  have "observe result k (Game ce re) = Inr 0" if "k < 9" for k
    using go [OF that] by (simp add: observe_def play_Game result_def)
  moreover have "filled (graph (?s 9)) = 9 \<and> p_result (?s 9) = - 1 \<and>
      p_status (?s 9) = ''Cops shift ends''"
  proof -
    from go [of 8] have c: "p_result (?s 8) = 0" "p_status (?s 8) = ''Game continues''"
      and f: "filled (graph (?s 8)) = 8" by simp_all
    from reached_plies [of 8 ce re] have b: "tictactoe_board (graph (?s 8))"
      by (simp add: reached_def)
    have t: "cops_to_move (?s 8)"
      using reached_turn [OF reached_plies, of 8 ce re] by simp
    from v have pv: "plays_valid (?s 8)" by simp
    have e: "?s 9 = ply (?s 8)" by (simp add: eval_nat_numeral)
    from n have "no_line (?s 9)" by simp
    then have nl: "no_line (ply (?s 8))" by (simp only: e)
    from valid_ply_goes_on(1) [OF b c pv nl] valid_ply_goes_on(3) [OF b c pv nl f t] f
    show ?thesis unfolding e by simp
  qed
  ultimately show ?thesis
    by (simp add: observe_def play_Game result_def status_def)
qed

theorem full_board_without_line_ends_cops_shift_witness:
  "all_plies 9 plays_valid draw_game \<and> all_plies 10 no_line draw_game \<and>
   observe result 8 draw_game = Inr 0 \<and>
   observe result 9 draw_game = Inr (- 1) \<and>
   observe status 9 draw_game = Inr ''Cops shift ends''"
proof -
  have v: "all_plies 9 plays_valid draw_game" by code_simp
  have n: "all_plies 10 no_line draw_game" by code_simp
  from full_board_without_line_ends_cops_shift
    [OF v [unfolded draw_game_def] n [unfolded draw_game_def]] v n
  show ?thesis by (simp add: draw_game_def)
qed

text \<open>
  Claim C8, as stated, says that a ply of the Cops that completes a line of the Cops and
  fills the last cell ends with the outcome \<open>Robber caught\<close>. In the game below the Robber
  completes the middle row on the sixth ply and the calls go on: the ninth ply is a valid
  move of the Cops that completes their top row and fills the grid, and the outcome after
  it is still \<open>-1\<close> with \<open>Robber escapes\<close>.
\<close>

theorem line_on_last_cell_after_the_decision:
  "observe plays_valid 8 played_on_game = Inr True \<and>
   observe (won COP \<circ> graph) 8 played_on_game = Inr False \<and>
   observe (full \<circ> graph) 8 played_on_game = Inr False \<and>
   observe (won COP \<circ> graph) 9 played_on_game = Inr True \<and>
   observe (full \<circ> graph) 9 played_on_game = Inr True \<and>
   observe result 9 played_on_game = Inr (- 1) \<and>
   observe status 9 played_on_game = Inr ''Robber escapes''"
proof -
  have "observe plays_valid 8 played_on_game = Inr True" by code_simp
  moreover have "observe (won COP \<circ> graph) 8 played_on_game = Inr False" by code_simp
  moreover have "observe (full \<circ> graph) 8 played_on_game = Inr False" by code_simp
  moreover have "observe (won COP \<circ> graph) 9 played_on_game = Inr True" by code_simp
  moreover have "observe (full \<circ> graph) 9 played_on_game = Inr True" by code_simp
  moreover have "observe result 9 played_on_game = Inr (- 1)" by code_simp
  moreover have "observe status 9 played_on_game = Inr ''Robber escapes''" by code_simp
  ultimately show ?thesis by simp
qed

text \<open>
  Claim C8, amended. A ply of the Robber never sets the status \<open>Cops shift ends\<close>. In a
  game that still continues, a ply of the Cops that is a valid move, after which the check
  for a line of the Cops and the check for a full grid both succeed, ends with
  \<^verbatim>\<open>result()\<close> \<open>1\<close> and \<^verbatim>\<open>status()\<close> \<open>Robber caught\<close>: the check for the line comes
  first and the tie that follows leaves the outcome as it is.
\<close>

theorem cops_line_precedes_tie:
  assumes "play n (Game ce re) = Inr s"
  shows "\<exists>s'. next_round s = Inr s' \<and>
     (odd n \<and> status s \<noteq> ''Cops shift ends'' \<longrightarrow> status s' \<noteq> ''Cops shift ends'') \<and>
     (even n \<and> result s = 0 \<and> plays_valid s \<and>
      three_in_a_row COP (graph s') = Inr 1 \<and> game_tied (graph s') = Inr 1 \<longrightarrow>
        result s' = 1 \<and> status s' = ''Robber caught'')"
proof -
  note r = play_reached(1) [OF assms]
  have a: "status (ply s) \<noteq> ''Cops shift ends''"
    if "odd n" "status s \<noteq> ''Cops shift ends''"
    using robber_ply_keeps_no_tie [of s] reached_turn [OF r] that by (simp add: status_def)
  have b: "result (ply s) = 1 \<and> status (ply s) = ''Robber caught''"
    if "even n" "result s = 0" "plays_valid s" "three_in_a_row COP (graph (ply s)) = Inr 1"
  proof -
    from r that(2) have c: "p_result s = 0" "p_status s = ''Game continues''"
      by (simp_all add: reached_def result_def)
    from that(3) obtain mv where m: "acting_step s = Returns mv" "valid_move (graph s) mv"
      by (auto simp: plays_valid_def split: outcome.splits)
    from that(1) reached_turn [OF r] have t: "cops_to_move s" by simp
    from that(4) m(1) t have "won COP (place COP mv (graph s))"
      by (simp add: won_def ply_graph acting_label_def)
    with ply_outcome [OF c] m t show ?thesis
      by (simp add: result_def status_def)
  qed
  from a b play_reached(2) [OF assms] show ?thesis by simp
qed

theorem cops_line_precedes_tie_witness:
  "observe result 8 last_cell_line_game = Inr 0 \<and>
   observe plays_valid 8 last_cell_line_game = Inr True \<and>
   observe (\<lambda>s. three_in_a_row COP (graph s)) 9 last_cell_line_game = Inr (Inr 1) \<and>
   observe (\<lambda>s. game_tied (graph s)) 9 last_cell_line_game = Inr (Inr 1) \<and>
   observe result 9 last_cell_line_game = Inr 1 \<and>
   observe status 9 last_cell_line_game = Inr ''Robber caught''"
proof -
  let ?ce = "plays [(0, 0), (0, 2), (2, 1), (2, 2), (1, 1)]"
  let ?re = "plays [(0, 1), (1, 0), (1, 2), (2, 0)]"
  have r8: "observe result 8 last_cell_line_game = Inr 0" by code_simp
  have v8: "observe plays_valid 8 last_cell_line_game = Inr True" by code_simp
  have w9: "observe (\<lambda>s. three_in_a_row COP (graph s)) 9 last_cell_line_game = Inr (Inr 1)"
    by code_simp
  have f9: "observe (\<lambda>s. game_tied (graph s)) 9 last_cell_line_game = Inr (Inr 1)"
    by code_simp
  from r8 v8 obtain s where s: "play 8 (Game ?ce ?re) = Inr s"
    and o: "result s = 0" "plays_valid s"
    by (auto simp: observe_play last_cell_line_game_def)
  from cops_line_precedes_tie [OF s] obtain s' where n: "next_round s = Inr s'"
    and i: "even (8 :: nat) \<and> result s = 0 \<and> plays_valid s \<and>
      three_in_a_row COP (graph s') = Inr 1 \<and> game_tied (graph s') = Inr 1 \<longrightarrow>
        result s' = 1 \<and> status s' = ''Robber caught''"
    by blast
  from s n have p9: "play 9 (Game ?ce ?re) = Inr s'"
    by (simp add: eval_nat_numeral)
  with w9 f9 have "three_in_a_row COP (graph s') = Inr 1" "game_tied (graph s') = Inr 1"
    by (simp_all add: observe_def last_cell_line_game_def)
  with i o have "result s' = 1" "status s' = ''Robber caught''" by simp_all
  with p9 have "observe result 9 last_cell_line_game = Inr 1"
    "observe status 9 last_cell_line_game = Inr ''Robber caught''"
    by (simp_all add: observe_def last_cell_line_game_def)
  with r8 v8 w9 f9 show ?thesis by simp
qed

section \<open>Engines and the graph they are handed\<close>











end
